theory Spec2Isabelle
  imports Main
begin

section \<open>JavaScript values and containers\<close>

text \<open>
  Request fields that may be missing are \<open>string option\<close>, \<open>None\<close> standing for
  JavaScript's \<open>undefined\<close>. A string is falsy when it is missing or empty, and a template
  literal prints a missing value as the text \<open>undefined\<close>.
\<close>

definition falsy :: "string option \<Rightarrow> bool" where
  "falsy v = (case v of None \<Rightarrow> True | Some s \<Rightarrow> s = [])"

definition js_str :: "string option \<Rightarrow> string" where
  "js_str v = (case v of None \<Rightarrow> ''undefined'' | Some s \<Rightarrow> s)"

text \<open>
  A JavaScript \<open>Map\<close> is an association list in insertion order: \<open>set\<close> on a present key
  replaces the value where it stands, on a new key it appends. A JavaScript \<open>Set\<close> is a
  list in insertion order that \<open>add\<close> extends only with a new element.
\<close>

definition Map_get :: "('k \<times> 'v) list \<Rightarrow> 'k \<Rightarrow> 'v option" where
  "Map_get m k = map_of m k"

definition Map_has :: "('k \<times> 'v) list \<Rightarrow> 'k \<Rightarrow> bool" where
  "Map_has m k = (map_of m k \<noteq> None)"

primrec Map_set :: "'k \<Rightarrow> 'v \<Rightarrow> ('k \<times> 'v) list \<Rightarrow> ('k \<times> 'v) list" where
  "Map_set k v [] = [(k, v)]"
| "Map_set k v (p # ps) = (if fst p = k then (k, v) # ps else p # Map_set k v ps)"

definition Map_delete :: "'k \<Rightarrow> ('k \<times> 'v) list \<Rightarrow> ('k \<times> 'v) list" where
  "Map_delete k m = filter (\<lambda>p. fst p \<noteq> k) m"

definition Set_add :: "'a \<Rightarrow> 'a list \<Rightarrow> 'a list" where
  "Set_add x xs = (if x \<in> set xs then xs else xs @ [x])"

definition Set_delete :: "'a \<Rightarrow> 'a list \<Rightarrow> 'a list" where
  "Set_delete x xs = filter (\<lambda>y. y \<noteq> x) xs"

text \<open>\<open>s.split(c)\<close> for a one-character separator: always at least one piece.\<close>

fun split_on :: "char \<Rightarrow> string \<Rightarrow> string list" where
  "split_on c [] = [[]]"
| "split_on c (x # xs) =
     (if x = c then [] # split_on c xs
      else (case split_on c xs of [] \<Rightarrow> [[x]] | w # ws \<Rightarrow> (x # w) # ws))"

text \<open>Array destructuring: a position past the end reads \<open>undefined\<close>.\<close>

fun nth_opt :: "'a list \<Rightarrow> nat \<Rightarrow> 'a option" where
  "nth_opt [] n = None"
| "nth_opt (x # xs) 0 = Some x"
| "nth_opt (x # xs) (Suc n) = nth_opt xs n"

text \<open>\<open>toUpperCase\<close> on the ASCII letters; every other byte is left as it is.\<close>

definition upper_char :: "char \<Rightarrow> char" where
  "upper_char c =
     (let n = (of_char c :: nat) in if 97 \<le> n \<and> n \<le> 122 then char_of (n - 32) else c)"

definition toUpperCase :: "string \<Rightarrow> string" where
  "toUpperCase s = map upper_char s"

section \<open>The in-memory database\<close>

record item =
  skinId :: "string option"
  skinName :: string
  source :: string
  addedAt :: string

record user =
  region :: string
  items :: "item list"
  createdAt :: string
  updatedAt :: string

type_synonym subscriptions = "(string option \<times> string list) list"

record db =
  wishlist :: "(string \<times> user) list"
  skinSubscriptions :: subscriptions

definition empty_db :: db where
  "empty_db = \<lparr>wishlist = [], skinSubscriptions = []\<rparr>"

definition regions :: "string list" where
  "regions = [''TR'', ''EU'', ''NA'', ''AP'', ''KR'', ''BR'', ''LATAM'']"

datatype error = UserNotFound | SkinIdRequired | Unauthorized

section \<open>Helpers\<close>

text \<open>The version-4 UUID is drawn outside the program; it is a parameter here.\<close>

definition generateAnonUserId :: "string \<Rightarrow> string" where
  "generateAnonUserId uuid = ''anon_'' @ take 16 (filter (\<lambda>c. c \<noteq> CHR ''-'') uuid)"

definition normalizeRegion :: "string option \<Rightarrow> string" where
  "normalizeRegion r =
     (let u = toUpperCase (if falsy r then ''EU'' else js_str r)
      in if u \<in> set regions then u else ''EU'')"

text \<open>\<open>generateTopic\<close> of server.js and \<open>generateTopicName\<close> of the other file are the same
  template.\<close>

definition generateTopic :: "string option \<Rightarrow> string option \<Rightarrow> string option \<Rightarrow> string" where
  "generateTopic r s k = ''valohub/'' @ js_str r @ ''/'' @ js_str s @ ''/'' @ js_str k"

definition generateTopicName :: "string option \<Rightarrow> string option \<Rightarrow> string option \<Rightarrow> string" where
  "generateTopicName r s k = ''valohub/'' @ js_str r @ ''/'' @ js_str s @ ''/'' @ js_str k"

text \<open>The composite key \<open>`${anonUserId}:${region}:${source}`\<close> kept in a skin's set.\<close>

definition subKey :: "string \<Rightarrow> string \<Rightarrow> string \<Rightarrow> string" where
  "subKey uid r s = uid @ '':'' @ r @ '':'' @ s"

definition new_user :: "string \<Rightarrow> string \<Rightarrow> user" where
  "new_user r now = \<lparr>region = r, items = [], createdAt = now, updatedAt = now\<rparr>"

text \<open>The set stored under a skin, empty when the skin has no entry.\<close>

definition bucket :: "subscriptions \<Rightarrow> string option \<Rightarrow> string list" where
  "bucket subs k = (case Map_get subs k of None \<Rightarrow> [] | Some s \<Rightarrow> s)"

text \<open>
  \<open>if (!subs.has(k)) subs.set(k, new Set()); subs.get(k).add(e)\<close>, the insertion both files
  use.
\<close>

definition subs_insert :: "string option \<Rightarrow> string \<Rightarrow> subscriptions \<Rightarrow> subscriptions" where
  "subs_insert k e subs =
     (let subs1 = (if \<not> Map_has subs k then Map_set k [] subs else subs)
      in Map_set k (Set_add e (bucket subs1 k)) subs1)"

text \<open>
  \<open>const set = subs.get(k); if (set) { set.delete(e); if (set.size === 0) subs.delete(k); }\<close>,
  the removal both files use.
\<close>

definition subs_remove :: "string option \<Rightarrow> string \<Rightarrow> subscriptions \<Rightarrow> subscriptions" where
  "subs_remove k e subs =
     (case Map_get subs k of
        None \<Rightarrow> subs
      | Some s \<Rightarrow>
          (let s' = Set_delete e s; subs1 = Map_set k s' subs
           in if length s' = 0 then Map_delete k subs1 else subs1))"

text \<open>
  The source of a request. The body default \<open>source = 'store'\<close> applies to a missing field
  only, in both files' POST handlers and in the second file's DELETE handler; server.js reads
  its query with \<open>req.query.source || "store"\<close>, which also replaces the empty string.
\<close>

definition default_source :: "string option \<Rightarrow> string" where
  "default_source s = (case s of None \<Rightarrow> ''store'' | Some x \<Rightarrow> x)"

definition server_query_source :: "string option \<Rightarrow> string" where
  "server_query_source q = (if falsy q then ''store'' else js_str q)"

section \<open>server.js\<close>

text \<open>Every handler takes the clock reading \<open>now\<close> of its request as a parameter.\<close>

definition server_register :: "string \<Rightarrow> string \<Rightarrow> string option \<Rightarrow> db \<Rightarrow> db \<times> string \<times> string" where
  "server_register uuid now reqRegion d =
     (let r = normalizeRegion reqRegion; anonUserId = generateAnonUserId uuid
      in (d\<lparr>wishlist := Map_set anonUserId (new_user r now) (wishlist d)\<rparr>, anonUserId, r))"

definition server_relocate :: "string \<Rightarrow> string \<Rightarrow> string \<Rightarrow> item \<Rightarrow> subscriptions \<Rightarrow> subscriptions" where
  "server_relocate anonUserId oldRegion r i subs =
     (case Map_get subs (skinId i) of
        None \<Rightarrow> subs
      | Some s \<Rightarrow>
          Map_set (skinId i)
            (Set_add (subKey anonUserId r (source i))
               (Set_delete (subKey anonUserId oldRegion (source i)) s)) subs)"

definition server_put_region :: "string \<Rightarrow> string option \<Rightarrow> string \<Rightarrow> db \<Rightarrow> db \<times> (error + string)" where
  "server_put_region anonUserId reqRegion now d =
     (let r = normalizeRegion reqRegion
      in case Map_get (wishlist d) anonUserId of
           None \<Rightarrow> (d, Inl UserNotFound)
         | Some u \<Rightarrow>
             (let oldRegion = region u;
                  u' = u\<lparr>region := r, updatedAt := now\<rparr>
              in (\<lparr>wishlist = Map_set anonUserId u' (wishlist d),
                   skinSubscriptions =
                     fold (server_relocate anonUserId oldRegion r) (items u) (skinSubscriptions d)\<rparr>,
                  Inr r)))"

definition server_post_wishlist ::
  "string \<Rightarrow> string option \<Rightarrow> string option \<Rightarrow> string option \<Rightarrow> string \<Rightarrow> db
     \<Rightarrow> db \<times> (error + string)" where
  "server_post_wishlist anonUserId reqSkinId reqSkinName reqSource now d =
     (let src = default_source reqSource
      in if falsy reqSkinId then (d, Inl SkinIdRequired)
         else
           (let (u, wl) =
                  (case Map_get (wishlist d) anonUserId of
                     Some u \<Rightarrow> (u, wishlist d)
                   | None \<Rightarrow> (new_user ''EU'' now, Map_set anonUserId (new_user ''EU'' now) (wishlist d)));
                exists = list_ex (\<lambda>i. skinId i = reqSkinId \<and> source i = src) (items u);
                topic = generateTopic (Some (region u)) (Some src) reqSkinId
            in if \<not> exists then
                 (let u' = u\<lparr>items := items u @
                            [\<lparr>skinId = reqSkinId,
                              skinName = (if falsy reqSkinName then ''Unknown'' else js_str reqSkinName),
                              source = src, addedAt = now\<rparr>]\<rparr>
                  in (\<lparr>wishlist = Map_set anonUserId u' wl,
                       skinSubscriptions =
                         subs_insert reqSkinId (subKey anonUserId (region u) src) (skinSubscriptions d)\<rparr>,
                      Inr topic))
               else (\<lparr>wishlist = wl, skinSubscriptions = skinSubscriptions d\<rparr>, Inr topic)))"

definition server_delete_wishlist :: "string \<Rightarrow> string \<Rightarrow> string option \<Rightarrow> db \<Rightarrow> db \<times> (error + unit)" where
  "server_delete_wishlist anonUserId sid qSource d =
     (let src = server_query_source qSource
      in case Map_get (wishlist d) anonUserId of
           None \<Rightarrow> (d, Inl UserNotFound)
         | Some u \<Rightarrow>
             (let u' = u\<lparr>items := filter (\<lambda>i. \<not> (skinId i = Some sid \<and> source i = src)) (items u)\<rparr>
              in (\<lparr>wishlist = Map_set anonUserId u' (wishlist d),
                   skinSubscriptions =
                     subs_remove (Some sid) (subKey anonUserId (region u') src) (skinSubscriptions d)\<rparr>,
                  Inr ())))"

record wishlist_view =
  view_region :: string
  view_items :: "item list"
  view_topics :: "string list"

definition server_get_wishlist :: "string \<Rightarrow> db \<Rightarrow> wishlist_view" where
  "server_get_wishlist anonUserId d =
     (case Map_get (wishlist d) anonUserId of
        None \<Rightarrow> \<lparr>view_region = ''EU'', view_items = [], view_topics = []\<rparr>
      | Some u \<Rightarrow>
          \<lparr>view_region = region u, view_items = items u,
           view_topics = map (\<lambda>i. generateTopic (Some (region u)) (Some (source i)) (skinId i)) (items u)\<rparr>)"

text \<open>The process environment and the request header of the worker routes.\<close>

record env =
  NODE_ENV :: "string option"
  WORKER_API_KEY :: "string option"

definition checkWorkerKey :: "env \<Rightarrow> string option \<Rightarrow> bool" where
  "checkWorkerKey e apiKey = (\<not> (NODE_ENV e = Some ''production'' \<and> apiKey \<noteq> WORKER_API_KEY e))"

record subscription =
  sub_anonUserId :: "string option"
  sub_region :: "string option"
  sub_source :: "string option"
  sub_topic :: string

definition server_parse_sub :: "string \<Rightarrow> string \<Rightarrow> subscription" where
  "server_parse_sub sid s =
     (let ps = split_on (CHR '':'') s
      in \<lparr>sub_anonUserId = nth_opt ps 0, sub_region = nth_opt ps 1, sub_source = nth_opt ps 2,
          sub_topic = generateTopic (nth_opt ps 1) (nth_opt ps 2) (Some sid)\<rparr>)"

definition server_get_subscriptions :: "env \<Rightarrow> string option \<Rightarrow> string \<Rightarrow> db \<Rightarrow> error + subscription list" where
  "server_get_subscriptions e apiKey sid d =
     (if \<not> checkWorkerKey e apiKey then Inl Unauthorized
      else case Map_get (skinSubscriptions d) (Some sid) of
             None \<Rightarrow> Inr []
           | Some subs \<Rightarrow> Inr (map (server_parse_sub sid) subs))"

text \<open>\<open>if (!map.has(k)) map.set(k, new Set()); map.get(k).add(r)\<close> of the active-skins loops.\<close>

definition active_add ::
  "string option \<Rightarrow> string option \<Rightarrow> (string option \<times> string option list) list
     \<Rightarrow> (string option \<times> string option list) list" where
  "active_add k r acc =
     (let acc1 = (if \<not> Map_has acc k then Map_set k [] acc else acc)
      in Map_set k (Set_add r (case Map_get acc1 k of None \<Rightarrow> [] | Some rs \<Rightarrow> rs)) acc1)"

definition server_active_map :: "subscriptions \<Rightarrow> (string option \<times> string option list) list" where
  "server_active_map subs =
     fold (\<lambda>(k, s) acc. fold (\<lambda>e acc. active_add k (nth_opt (split_on (CHR '':'') e) 1) acc) s acc)
       subs []"

text \<open>The \<open>source\<close> query parameter is not read by this handler.\<close>

definition server_get_active_skins ::
  "env \<Rightarrow> string option \<Rightarrow> string option \<Rightarrow> db
     \<Rightarrow> error + nat \<times> (string option \<times> string option list) list" where
  "server_get_active_skins e apiKey qSource d =
     (if \<not> checkWorkerKey e apiKey then Inl Unauthorized
      else (let skins = server_active_map (skinSubscriptions d) in Inr (length skins, skins)))"

section \<open>The second source file\<close>

text \<open>
  The repository's other source file defines the same routes again, with its own bodies.
  Its handlers carry the prefix \<open>part0\<close>.
\<close>

definition part0_register :: "string \<Rightarrow> string \<Rightarrow> string option \<Rightarrow> db \<Rightarrow> db \<times> string \<times> string" where
  "part0_register uuid now reqRegion d =
     (let anonUserId = generateAnonUserId uuid; normalizedRegion = normalizeRegion reqRegion
      in (d\<lparr>wishlist := Map_set anonUserId (new_user normalizedRegion now) (wishlist d)\<rparr>,
          anonUserId, normalizedRegion))"

definition part0_relocate :: "string \<Rightarrow> string \<Rightarrow> string \<Rightarrow> item \<Rightarrow> subscriptions \<Rightarrow> subscriptions" where
  "part0_relocate anonUserId oldRegion newRegion i subs =
     (let subs1 =
            (case Map_get subs (skinId i) of
               None \<Rightarrow> subs
             | Some oldSubs \<Rightarrow>
                 Map_set (skinId i) (Set_delete (subKey anonUserId oldRegion (source i)) oldSubs) subs)
      in subs_insert (skinId i) (subKey anonUserId newRegion (source i)) subs1)"

definition part0_put_region :: "string \<Rightarrow> string option \<Rightarrow> string \<Rightarrow> db \<Rightarrow> db \<times> (error + string)" where
  "part0_put_region anonUserId reqRegion now d =
     (case Map_get (wishlist d) anonUserId of
        None \<Rightarrow> (d, Inl UserNotFound)
      | Some userData \<Rightarrow>
          (let oldRegion = region userData;
               newRegion = normalizeRegion reqRegion;
               userData' = userData\<lparr>region := newRegion, updatedAt := now\<rparr>
           in (\<lparr>wishlist = Map_set anonUserId userData' (wishlist d),
                skinSubscriptions =
                  fold (part0_relocate anonUserId oldRegion newRegion) (items userData)
                    (skinSubscriptions d)\<rparr>,
               Inr newRegion)))"

definition validSources :: "string list" where
  "validSources = [''store'', ''night'', ''bundle'']"

definition normalizeSource :: "string option \<Rightarrow> string" where
  "normalizeSource reqSource =
     (let src = default_source reqSource
      in if src \<in> set validSources then src else ''store'')"

datatype add_reply =
    AlreadyInWishlist string
  | Added item string

definition reply_topic :: "add_reply \<Rightarrow> string" where
  "reply_topic r = (case r of AlreadyInWishlist t \<Rightarrow> t | Added i t \<Rightarrow> t)"

definition part0_post_wishlist ::
  "string \<Rightarrow> string option \<Rightarrow> string option \<Rightarrow> string option \<Rightarrow> string \<Rightarrow> db
     \<Rightarrow> db \<times> (error + add_reply)" where
  "part0_post_wishlist anonUserId reqSkinId reqSkinName reqSource now d =
     (let normalizedSource = normalizeSource reqSource;
          (userData, wl) =
            (case Map_get (wishlist d) anonUserId of
               Some u \<Rightarrow> (u, wishlist d)
             | None \<Rightarrow> (new_user ''EU'' now, Map_set anonUserId (new_user ''EU'' now) (wishlist d)));
          exists = list_ex (\<lambda>i. skinId i = reqSkinId \<and> source i = normalizedSource) (items userData);
          topic = generateTopicName (Some (region userData)) (Some normalizedSource) reqSkinId
      in if exists then
           (\<lparr>wishlist = wl, skinSubscriptions = skinSubscriptions d\<rparr>, Inr (AlreadyInWishlist topic))
         else
           (let newItem =
                  \<lparr>skinId = reqSkinId,
                   skinName = (if falsy reqSkinName then ''Unknown Skin'' else js_str reqSkinName),
                   source = normalizedSource, addedAt = now\<rparr>;
                userData' = userData\<lparr>items := items userData @ [newItem], updatedAt := now\<rparr>
            in (\<lparr>wishlist = Map_set anonUserId userData' wl,
                 skinSubscriptions =
                   subs_insert reqSkinId (subKey anonUserId (region userData) normalizedSource)
                     (skinSubscriptions d)\<rparr>,
                Inr (Added newItem topic))))"

datatype remove_reply =
    ItemNotFound
  | Removed string

definition part0_delete_wishlist ::
  "string \<Rightarrow> string \<Rightarrow> string option \<Rightarrow> string \<Rightarrow> db \<Rightarrow> db \<times> (error + remove_reply)" where
  "part0_delete_wishlist anonUserId sid qSource now d =
     (let src = default_source qSource
      in case Map_get (wishlist d) anonUserId of
           None \<Rightarrow> (d, Inl UserNotFound)
         | Some userData \<Rightarrow>
             (let initialLength = length (items userData);
                  userData1 = userData\<lparr>items :=
                    filter (\<lambda>i. \<not> (skinId i = Some sid \<and> source i = src)) (items userData)\<rparr>
              in if length (items userData1) = initialLength then
                   (\<lparr>wishlist = Map_set anonUserId userData1 (wishlist d),
                     skinSubscriptions = skinSubscriptions d\<rparr>,
                    Inr ItemNotFound)
                 else
                   (\<lparr>wishlist = Map_set anonUserId (userData1\<lparr>updatedAt := now\<rparr>) (wishlist d),
                     skinSubscriptions =
                       subs_remove (Some sid) (subKey anonUserId (region userData1) src)
                         (skinSubscriptions d)\<rparr>,
                    Inr (Removed (generateTopicName (Some (region userData1)) (Some src) (Some sid))))))"

definition part0_get_wishlist :: "string \<Rightarrow> db \<Rightarrow> wishlist_view" where
  "part0_get_wishlist anonUserId d =
     (case Map_get (wishlist d) anonUserId of
        None \<Rightarrow> \<lparr>view_region = ''EU'', view_items = [], view_topics = []\<rparr>
      | Some userData \<Rightarrow>
          \<lparr>view_region = region userData, view_items = items userData,
           view_topics =
             map (\<lambda>i. generateTopicName (Some (region userData)) (Some (source i)) (skinId i))
               (items userData)\<rparr>)"

definition part0_unauthorized :: "env \<Rightarrow> string option \<Rightarrow> bool" where
  "part0_unauthorized e apiKey = (apiKey \<noteq> WORKER_API_KEY e \<and> NODE_ENV e = Some ''production'')"

definition part0_parse_sub :: "string \<Rightarrow> string \<Rightarrow> subscription" where
  "part0_parse_sub sid s =
     (let ps = split_on (CHR '':'') s
      in \<lparr>sub_anonUserId = nth_opt ps 0, sub_region = nth_opt ps 1, sub_source = nth_opt ps 2,
          sub_topic = generateTopicName (nth_opt ps 1) (nth_opt ps 2) (Some sid)\<rparr>)"

definition part0_get_subscriptions ::
  "env \<Rightarrow> string option \<Rightarrow> string \<Rightarrow> db \<Rightarrow> error + string \<times> subscription list" where
  "part0_get_subscriptions e apiKey sid d =
     (if part0_unauthorized e apiKey then Inl Unauthorized
      else case Map_get (skinSubscriptions d) (Some sid) of
             None \<Rightarrow> Inr (sid, [])
           | Some subs \<Rightarrow>
               if length subs = 0 then Inr (sid, [])
               else Inr (sid, map (part0_parse_sub sid) subs))"

definition part0_active_step ::
  "string option \<Rightarrow> string option \<Rightarrow> string
     \<Rightarrow> (string option \<times> string option list) list
     \<Rightarrow> (string option \<times> string option list) list" where
  "part0_active_step qSource k e acc =
     (let ps = split_on (CHR '':'') e; r = nth_opt ps 1; itemSource = nth_opt ps 2
      in if falsy qSource \<or> itemSource = qSource then active_add k r acc else acc)"

definition part0_active_map ::
  "string option \<Rightarrow> subscriptions \<Rightarrow> (string option \<times> string option list) list" where
  "part0_active_map qSource subs =
     fold (\<lambda>(k, s) acc. fold (part0_active_step qSource k) s acc) subs []"

definition part0_get_active_skins ::
  "env \<Rightarrow> string option \<Rightarrow> string option \<Rightarrow> db
     \<Rightarrow> error + string \<times> nat \<times> (string option \<times> string option list) list" where
  "part0_get_active_skins e apiKey qSource d =
     (if part0_unauthorized e apiKey then Inl Unauthorized
      else (let result = part0_active_map qSource (skinSubscriptions d)
            in Inr (if falsy qSource then ''all'' else js_str qSource, length result, result)))"

section \<open>Store predicates and sample states\<close>

text \<open>
  The composite keys that the wishlists call for under skin \<open>k\<close>: one per user and item of
  that skin, built from the user's id and current region and the item's source.
\<close>

definition live_keys :: "db \<Rightarrow> string option \<Rightarrow> string list" where
  "live_keys d k =
     concat (map (\<lambda>(uid, u). map (\<lambda>i. subKey uid (region u) (source i))
                                 (filter (\<lambda>i. skinId i = k) (items u))) (wishlist d))"

text \<open>
  The reverse index mirrors the wishlists: every item of every user has its key exactly once
  in the set of its skin, and every key of every set belongs to such a user and item.
\<close>

definition index_mirrors :: "db \<Rightarrow> bool" where
  "index_mirrors d =
     (list_all (\<lambda>(uid, u). list_all (\<lambda>i.
          count_list (bucket (skinSubscriptions d) (skinId i)) (subKey uid (region u) (source i)) = 1)
        (items u)) (wishlist d)
      \<and> list_all (\<lambda>(k, s). list_all (\<lambda>e. e \<in> set (live_keys d k)) s) (skinSubscriptions d))"

text \<open>A user holding one item, and the index that goes with it.\<close>

definition demo_item :: item where
  "demo_item = \<lparr>skinId = Some ''prime-vandal'', skinName = ''Prime Vandal'', source = ''store'',
                 addedAt = ''t1''\<rparr>"

definition demo_user :: user where
  "demo_user = \<lparr>region = ''TR'', items = [demo_item], createdAt = ''t0'', updatedAt = ''t1''\<rparr>"

definition demo_db :: db where
  "demo_db = \<lparr>wishlist = [(''anon_1'', demo_user)],
               skinSubscriptions = [(Some ''prime-vandal'', [''anon_1:TR:store''])]\<rparr>"

text \<open>
  Three requests to server.js: two users add one skin each, then the second asks to remove a
  skin it does not hold, with a source that contains the separator.
\<close>

definition clash1 :: db where
  "clash1 = fst (server_post_wishlist ''a:EU'' (Some ''k'') None None ''t1'' empty_db)"

definition clash2 :: db where
  "clash2 = fst (server_post_wishlist ''a'' (Some ''z'') None None ''t2'' clash1)"

definition clash3 :: db where
  "clash3 = fst (server_delete_wishlist ''a'' ''k'' (Some ''EU:store'') clash2)"

text \<open>How many items of user \<open>uid\<close> carry skin \<open>k\<close> and source \<open>src\<close>.\<close>

definition held :: "db \<Rightarrow> string \<Rightarrow> string option \<Rightarrow> string \<Rightarrow> nat" where
  "held d uid k src =
     (case Map_get (wishlist d) uid of
        None \<Rightarrow> 0
      | Some u \<Rightarrow> length (filter (\<lambda>i. skinId i = k \<and> source i = src) (items u)))"

text \<open>The key of user \<open>uid\<close> for source \<open>src\<close>, with the region the store records for the
  user (an unknown user would be created in \<open>EU\<close>).\<close>

definition region_of :: "db \<Rightarrow> string \<Rightarrow> string" where
  "region_of d uid = (case Map_get (wishlist d) uid of None \<Rightarrow> ''EU'' | Some u \<Rightarrow> region u)"

definition key_of :: "db \<Rightarrow> string \<Rightarrow> string \<Rightarrow> string" where
  "key_of d uid src = subKey uid (region_of d uid) src"

text \<open>Every stored source is one of the three valid ones.\<close>

definition sources_valid :: "db \<Rightarrow> bool" where
  "sources_valid d =
     list_all (\<lambda>(uid, u). list_all (\<lambda>i. source i \<in> set validSources) (items u)) (wishlist d)"

text \<open>No skin is left with an empty set.\<close>

definition no_empty_sets :: "subscriptions \<Rightarrow> bool" where
  "no_empty_sets subs = list_all (\<lambda>(k, s). s \<noteq> []) subs"

text \<open>
  User \<open>uid\<close> holds the pair of skin \<open>k\<close> and source \<open>src\<close> at most once, the set of
  \<open>k\<close> has no repeated key, and the key of a held pair is in that set.
\<close>

definition settled :: "db \<Rightarrow> string \<Rightarrow> string option \<Rightarrow> string \<Rightarrow> bool" where
  "settled d uid k src =
     (held d uid k src \<le> 1 \<and> distinct (bucket (skinSubscriptions d) k)
      \<and> (held d uid k src = 1 \<longrightarrow> key_of d uid src \<in> set (bucket (skinSubscriptions d) k)))"

text \<open>Every user's region is one of the supported ones.\<close>

definition regions_valid :: "db \<Rightarrow> bool" where
  "regions_valid d = list_all (\<lambda>(uid, u). region u \<in> set regions) (wishlist d)"

text \<open>The pair is not held yet, or its key is in the set of its skin.\<close>

definition filed :: "db \<Rightarrow> string \<Rightarrow> string option \<Rightarrow> string \<Rightarrow> bool" where
  "filed d uid k src =
     (held d uid k src = 0 \<or> key_of d uid src \<in> set (bucket (skinSubscriptions d) k))"

text \<open>A development environment: no key is asked of the worker.\<close>

definition dev_env :: env where
  "dev_env = \<lparr>NODE_ENV = None, WORKER_API_KEY = None\<rparr>"

text \<open>
  What the worker routes read out of a key: the second and third piece of the split. A key
  passes the source filter when no filter is given or its third piece is the filter.
\<close>

definition key_region :: "string \<Rightarrow> string option" where
  "key_region e = nth_opt (split_on (CHR '':'') e) 1"

definition key_source :: "string \<Rightarrow> string option" where
  "key_source e = nth_opt (split_on (CHR '':'') e) 2"

definition passes :: "string option \<Rightarrow> string \<Rightarrow> bool" where
  "passes q e = (falsy q \<or> key_source e = q)"

text \<open>Every key of the index splits into exactly three pieces.\<close>

definition three_part_keys :: "subscriptions \<Rightarrow> bool" where
  "three_part_keys subs =
     list_all (\<lambda>(k, s). list_all (\<lambda>e. length (split_on (CHR '':'') e) = 3) s) subs"

text \<open>The regions that an aggregated map lists for a skin.\<close>

definition listed :: "(string option \<times> string option list) list \<Rightarrow> string option \<Rightarrow> string option list" where
  "listed acc k = (case Map_get acc k of None \<Rightarrow> [] | Some rs \<Rightarrow> rs)"

text \<open>
  The store is well formed: user ids and skins are keys of their maps once, no set repeats a
  key, every region is a supported one, no stored source contains the separator, and the
  index mirrors the wishlists.
\<close>

definition sets_ok :: "subscriptions \<Rightarrow> bool" where
  "sets_ok subs = (distinct (map fst subs) \<and> list_all (\<lambda>(k, s). distinct s) subs)"

definition sources_plain :: "db \<Rightarrow> bool" where
  "sources_plain d =
     list_all (\<lambda>(uid, u). list_all (\<lambda>i. CHR '':'' \<notin> set (source i)) (items u)) (wishlist d)"

definition store_inv :: "db \<Rightarrow> bool" where
  "store_inv d =
     (distinct (map fst (wishlist d)) \<and> sets_ok (skinSubscriptions d) \<and> regions_valid d
      \<and> sources_plain d \<and> index_mirrors d)"

text \<open>The keys one user calls for under a skin, and those of all users but one.\<close>

definition user_keys :: "string \<Rightarrow> user \<Rightarrow> string option \<Rightarrow> string set" where
  "user_keys uid u k = (\<lambda>i. subKey uid (region u) (source i)) ` {i \<in> set (items u). skinId i = k}"

definition others_keys :: "(string \<times> user) list \<Rightarrow> string \<Rightarrow> string option \<Rightarrow> string set" where
  "others_keys wl uid k = (\<Union>p \<in> {p \<in> set wl. fst p \<noteq> uid}. user_keys (fst p) (snd p) k)"

text \<open>Within each user's list, no pair of skin and source occurs twice.\<close>

definition pairs_unique :: "db \<Rightarrow> bool" where
  "pairs_unique d =
     list_all (\<lambda>(uid, u). distinct (map (\<lambda>i. (skinId i, source i)) (items u))) (wishlist d)"

section \<open>Container lemmas\<close>

lemma map_of_Map_set: "map_of (Map_set k v m) = (map_of m)(k \<mapsto> v)"
  by (induction m) auto

lemma Map_get_Map_set: "Map_get (Map_set k v m) k' = (if k' = k then Some v else Map_get m k')"
  by (simp add: Map_get_def map_of_Map_set)

lemma Map_get_Map_delete: "Map_get (Map_delete k m) k' = (if k' = k then None else Map_get m k')"
  by (induction m) (auto simp: Map_get_def Map_delete_def)

lemma Map_set_same: "Map_get m k = Some v \<Longrightarrow> Map_set k v m = m"
  by (induction m) (auto simp: Map_get_def split: if_splits)

lemma Map_has_get: "Map_has m k = (Map_get m k \<noteq> None)"
  by (simp add: Map_has_def Map_get_def)

lemma keys_Map_set:
  "map fst (Map_set k v m) = (if k \<in> fst ` set m then map fst m else map fst m @ [k])"
  by (induction m) auto

lemma distinct_Map_set: "distinct (map fst m) \<Longrightarrow> distinct (map fst (Map_set k v m))"
  by (simp add: keys_Map_set)

lemma distinct_Map_delete: "distinct (map fst m) \<Longrightarrow> distinct (map fst (Map_delete k m))"
  by (simp add: Map_delete_def distinct_map_filter)

lemma set_Set_add: "set (Set_add x xs) = insert x (set xs)"
  by (auto simp: Set_add_def)

lemma set_Set_delete: "set (Set_delete x xs) = set xs - {x}"
  by (auto simp: Set_delete_def)

lemma distinct_Set_add: "distinct xs \<Longrightarrow> distinct (Set_add x xs)"
  by (simp add: Set_add_def)

lemma distinct_Set_delete: "distinct xs \<Longrightarrow> distinct (Set_delete x xs)"
  by (simp add: Set_delete_def)

lemma bucket_Map_set: "bucket (Map_set k s subs) k' = (if k' = k then s else bucket subs k')"
  by (simp add: bucket_def Map_get_Map_set)

lemma bucket_absent: "Map_get subs k = None \<Longrightarrow> bucket subs k = []"
  by (simp add: bucket_def)

lemma bucket_present: "Map_get subs k = Some s \<Longrightarrow> bucket subs k = s"
  by (simp add: bucket_def)

lemma bucket_subs_insert:
  "bucket (subs_insert k e subs) k' = (if k' = k then Set_add e (bucket subs k) else bucket subs k')"
  by (simp add: subs_insert_def Let_def bucket_Map_set Map_has_get bucket_absent)

lemma bucket_subs_remove:
  "bucket (subs_remove k e subs) k' = (if k' = k then Set_delete e (bucket subs k) else bucket subs k')"
  by (auto simp: subs_remove_def bucket_def Map_get_Map_set Map_get_Map_delete Let_def Set_delete_def
      split: option.splits)

lemma filter_length_eq: "length (filter P xs) = length xs \<Longrightarrow> filter P xs = xs"
  by (metis filter_True length_filter_less less_irrefl)


section \<open>Reading a wishlist\<close>

text \<open>
  C10. For a user known to the store, the wishlist read returns the user's region and items,
  and a topics list of the same length and order as the items: the topic at position \<open>k\<close> is
  the topic of the user's current region and the source and skin id of the item at position
  \<open>k\<close>. Both files.
\<close>

theorem get_wishlist_topics:
  assumes "Map_get (wishlist d) uid = Some u"
  shows "view_region (server_get_wishlist uid d) = region u
       \<and> view_items (server_get_wishlist uid d) = items u
       \<and> length (view_topics (server_get_wishlist uid d)) = length (items u)
       \<and> (\<forall>k < length (items u).
            view_topics (server_get_wishlist uid d) ! k
              = generateTopic (Some (region u)) (Some (source (items u ! k))) (skinId (items u ! k)))
       \<and> view_region (part0_get_wishlist uid d) = region u
       \<and> view_items (part0_get_wishlist uid d) = items u
       \<and> length (view_topics (part0_get_wishlist uid d)) = length (items u)
       \<and> (\<forall>k < length (items u).
            view_topics (part0_get_wishlist uid d) ! k
              = generateTopicName (Some (region u)) (Some (source (items u ! k))) (skinId (items u ! k)))"
  using assms by (simp add: server_get_wishlist_def part0_get_wishlist_def)

theorem get_wishlist_topics_witness:
  "Map_get (wishlist demo_db) ''anon_1'' = Some demo_user
   \<and> view_topics (server_get_wishlist ''anon_1'' demo_db) ! 0 = ''valohub/TR/store/prime-vandal''
   \<and> view_topics (part0_get_wishlist ''anon_1'' demo_db) ! 0 = ''valohub/TR/store/prime-vandal''"
proof -
  have h: "Map_get (wishlist demo_db) ''anon_1'' = Some demo_user"
    by (simp add: Map_get_def demo_db_def)
  have len: "0 < length (items demo_user)"
    by (simp add: demo_user_def)
  from get_wishlist_topics [OF h] len show ?thesis
    using h by (simp add: demo_user_def demo_item_def generateTopic_def generateTopicName_def js_str_def)
qed

section \<open>Adding without a skin id\<close>

lemma server_post_wishlist_rejects:
  "falsy k \<Longrightarrow> server_post_wishlist uid k n s now d = (d, Inl SkinIdRequired)"
  by (simp add: server_post_wishlist_def)

text \<open>
  C7. A request to add an item that carries no skin id is to be rejected with no change of
  state. server.js does so (the lemma above). The second file has no such check: on the empty
  store it creates the user, appends an item without a skin id, files the key under the
  missing skin and answers with a topic.
\<close>

theorem part0_post_wishlist_without_skinId:
  "part0_post_wishlist ''u'' None None None ''t'' empty_db =
     (\<lparr>wishlist =
         [(''u'', \<lparr>region = ''EU'',
                  items = [\<lparr>skinId = None, skinName = ''Unknown Skin'', source = ''store'',
                            addedAt = ''t''\<rparr>],
                  createdAt = ''t'', updatedAt = ''t''\<rparr>)],
       skinSubscriptions = [(None, [''u:EU:store''])]\<rparr>,
      Inr (Added \<lparr>skinId = None, skinName = ''Unknown Skin'', source = ''store'', addedAt = ''t''\<rparr>
             ''valohub/EU/store/undefined''))"
  by code_simp

section \<open>Removing with a colliding key\<close>

lemma clash2_eq:
  "clash2 =
     \<lparr>wishlist =
        [(''a:EU'', \<lparr>region = ''EU'',
                    items = [\<lparr>skinId = Some ''k'', skinName = ''Unknown'', source = ''store'',
                              addedAt = ''t1''\<rparr>],
                    createdAt = ''t1'', updatedAt = ''t1''\<rparr>),
         (''a'', \<lparr>region = ''EU'',
                 items = [\<lparr>skinId = Some ''z'', skinName = ''Unknown'', source = ''store'',
                           addedAt = ''t2''\<rparr>],
                 createdAt = ''t2'', updatedAt = ''t2''\<rparr>)],
      skinSubscriptions = [(Some ''k'', [''a:EU:EU:store'']), (Some ''z'', [''a:EU:store''])]\<rparr>"
  by code_simp

text \<open>
  C8. When the user exists and holds no matching item, removal is to change nothing. In
  server.js user \<open>a\<close>, who holds only skin \<open>z\<close>, asks to remove skin \<open>k\<close> with
  source \<open>EU:store\<close>: the key deleted is that of user \<open>a:EU\<close>, the set of \<open>k\<close>
  empties and is dropped, and the answer is the plain success of a removal.
\<close>

theorem server_delete_wishlist_foreign_key:
  "Map_get (wishlist clash2) ''a''
     = Some \<lparr>region = ''EU'',
             items = [\<lparr>skinId = Some ''z'', skinName = ''Unknown'', source = ''store'',
                       addedAt = ''t2''\<rparr>],
             createdAt = ''t2'', updatedAt = ''t2''\<rparr>
   \<and> server_delete_wishlist ''a'' ''k'' (Some ''EU:store'') clash2
       = (clash2\<lparr>skinSubscriptions := [(Some ''z'', [''a:EU:store''])]\<rparr>, Inr ())
   \<and> fst (server_delete_wishlist ''a'' ''k'' (Some ''EU:store'') clash2) \<noteq> clash2"
  by code_simp


section \<open>Source normalisation\<close>

lemma count_list_distinct: "distinct xs \<Longrightarrow> count_list xs x = (if x \<in> set xs then 1 else 0)"
  by (induction xs) auto

lemma count_list_Set_add: "distinct xs \<Longrightarrow> count_list (Set_add x xs) x = 1"
  by (simp add: count_list_distinct distinct_Set_add set_Set_add)

lemma set_Map_set_subset: "set (Map_set k v m) \<subseteq> insert (k, v) (set m)"
  by (induction m) auto

lemma list_ex_filter: "list_ex P xs \<longleftrightarrow> filter P xs \<noteq> []"
  by (induction xs) auto

lemma normalizeSource_valid: "normalizeSource s \<in> set validSources"
  by (simp add: normalizeSource_def validSources_def Let_def)

lemma normalizeSource_cases:
  "normalizeSource s = (case s of None \<Rightarrow> ''store''
                        | Some x \<Rightarrow> if x \<in> {''store'', ''night'', ''bundle''} then x else ''store'')"
  by (auto simp: normalizeSource_def default_source_def validSources_def Let_def split: option.splits)

lemma sources_valid_Map_set:
  assumes "sources_valid d" and "list_all (\<lambda>i. source i \<in> set validSources) (items u)"
  shows "sources_valid \<lparr>wishlist = Map_set uid u (wishlist d), skinSubscriptions = subs\<rparr>"
  using assms set_Map_set_subset [of uid u "wishlist d"]
  by (fastforce simp: sources_valid_def list_all_iff)

text \<open>
  C6, as amended. In the second file every request to add an item normalises the source
  to one of \<open>store\<close>, \<open>night\<close>, \<open>bundle\<close>: a valid source is kept, a missing or any
  other one becomes \<open>store\<close>. The normalised source is the one of the item the user then
  holds, of the key filed in the index when an item is appended, and of the topic returned;
  so a store whose sources are all valid stays so.
\<close>

theorem part0_post_wishlist_normalizes:
  assumes "part0_post_wishlist uid k n s now d = (d', r)"
  shows "normalizeSource s \<in> {''store'', ''night'', ''bundle''}
       \<and> (case s of None \<Rightarrow> normalizeSource s = ''store''
           | Some x \<Rightarrow> normalizeSource s = (if x \<in> {''store'', ''night'', ''bundle''} then x else ''store''))
       \<and> (\<exists>u' reply. Map_get (wishlist d') uid = Some u' \<and> r = Inr reply
            \<and> list_ex (\<lambda>i. skinId i = k \<and> source i = normalizeSource s) (items u')
            \<and> reply_topic reply
                = generateTopicName (Some (region u')) (Some (normalizeSource s)) k
            \<and> (case reply of
                  AlreadyInWishlist t \<Rightarrow> skinSubscriptions d' = skinSubscriptions d
                | Added newItem t \<Rightarrow>
                    source newItem = normalizeSource s \<and> last (items u') = newItem
                    \<and> subKey uid (region u') (normalizeSource s)
                         \<in> set (bucket (skinSubscriptions d') k)))
       \<and> (sources_valid d \<longrightarrow> sources_valid d')"
proof -
  let ?ns = "normalizeSource s"
  have a: "?ns \<in> {''store'', ''night'', ''bundle''}"
    using normalizeSource_valid [of s] by (simp add: validSources_def)
  have b: "(case s of None \<Rightarrow> ?ns = ''store''
           | Some x \<Rightarrow> ?ns = (if x \<in> {''store'', ''night'', ''bundle''} then x else ''store''))"
    by (simp add: normalizeSource_cases split: option.splits)
  obtain u0 wl where uw: "(u0, wl) = (case Map_get (wishlist d) uid of
               Some u \<Rightarrow> (u, wishlist d)
             | None \<Rightarrow> (new_user ''EU'' now, Map_set uid (new_user ''EU'' now) (wishlist d)))"
    by (metis surj_pair)
  have get0: "Map_get wl uid = Some u0"
    using uw by (auto simp: Map_get_Map_set split: option.splits)
  have wl_valid: "sources_valid d \<Longrightarrow> sources_valid \<lparr>wishlist = wl, skinSubscriptions = sb\<rparr>" for sb
    using uw sources_valid_Map_set [of d "new_user ''EU'' now" uid sb]
    by (auto simp: new_user_def sources_valid_def split: option.splits)
  have u0_valid: "sources_valid d \<Longrightarrow> list_all (\<lambda>i. source i \<in> set validSources) (items u0)"
    using uw by (auto simp: new_user_def sources_valid_def list_all_iff Map_get_def
        split: option.splits dest!: map_of_SomeD)
  show ?thesis
  proof (cases "list_ex (\<lambda>i. skinId i = k \<and> source i = ?ns) (items u0)")
    case True
    with assms uw [symmetric] have d': "d' = \<lparr>wishlist = wl, skinSubscriptions = skinSubscriptions d\<rparr>"
      and r: "r = Inr (AlreadyInWishlist (generateTopicName (Some (region u0)) (Some ?ns) k))"
      by (auto simp: part0_post_wishlist_def Let_def)
    show ?thesis
      using a b True get0 wl_valid by (simp add: d' r reply_topic_def)
  next
    case False
    let ?new = "\<lparr>skinId = k, skinName = (if falsy n then ''Unknown Skin'' else js_str n),
                   source = ?ns, addedAt = now\<rparr>"
    let ?u' = "u0\<lparr>items := items u0 @ [?new], updatedAt := now\<rparr>"
    from False assms uw [symmetric] have d': "d' = \<lparr>wishlist = Map_set uid ?u' wl,
          skinSubscriptions = subs_insert k (subKey uid (region u0) ?ns) (skinSubscriptions d)\<rparr>"
      and r: "r = Inr (Added ?new (generateTopicName (Some (region u0)) (Some ?ns) k))"
      by (auto simp: part0_post_wishlist_def Let_def)
    have v: "sources_valid d \<Longrightarrow> sources_valid d'"
      unfolding d'
      using sources_valid_Map_set [of "\<lparr>wishlist = wl, skinSubscriptions = skinSubscriptions d\<rparr>" ?u' uid]
        wl_valid u0_valid normalizeSource_valid [of s]
      by simp
    show ?thesis
      using a b v
      by (simp add: d' r reply_topic_def Map_get_Map_set bucket_subs_insert set_Set_add)
  qed
qed

theorem part0_post_wishlist_normalizes_witness:
  "part0_post_wishlist ''u'' (Some ''k'') None (Some ''daily'') ''t'' empty_db
     = (\<lparr>wishlist =
          [(''u'', \<lparr>region = ''EU'',
                   items = [\<lparr>skinId = Some ''k'', skinName = ''Unknown Skin'', source = ''store'',
                             addedAt = ''t''\<rparr>],
                   createdAt = ''t'', updatedAt = ''t''\<rparr>)],
         skinSubscriptions = [(Some ''k'', [''u:EU:store''])]\<rparr>,
        Inr (Added \<lparr>skinId = Some ''k'', skinName = ''Unknown Skin'', source = ''store'',
                    addedAt = ''t''\<rparr> ''valohub/EU/store/k''))
   \<and> normalizeSource (Some ''daily'') = ''store''
   \<and> sources_valid empty_db"
proof -
  have e: "part0_post_wishlist ''u'' (Some ''k'') None (Some ''daily'') ''t'' empty_db
     = (\<lparr>wishlist =
          [(''u'', \<lparr>region = ''EU'',
                   items = [\<lparr>skinId = Some ''k'', skinName = ''Unknown Skin'', source = ''store'',
                             addedAt = ''t''\<rparr>],
                   createdAt = ''t'', updatedAt = ''t''\<rparr>)],
         skinSubscriptions = [(Some ''k'', [''u:EU:store''])]\<rparr>,
        Inr (Added \<lparr>skinId = Some ''k'', skinName = ''Unknown Skin'', source = ''store'',
                    addedAt = ''t''\<rparr> ''valohub/EU/store/k''))"
    by code_simp
  have v: "sources_valid empty_db"
    by code_simp
  from part0_post_wishlist_normalizes [OF e] v show ?thesis
    using e by simp
qed

text \<open>
  C6, as stated, fails. The removal handlers of both files accept a source from the client
  and match it as given: \<open>daily\<close> would normalise to \<open>store\<close>, yet removing with
  \<open>daily\<close> leaves the user's \<open>store\<close> item where it is, while removing with
  \<open>store\<close> takes it out. And the add handler of server.js stores, files and returns
  \<open>daily\<close> itself.
\<close>

theorem source_not_normalized_everywhere:
  "normalizeSource (Some ''daily'') = ''store''
   \<and> part0_delete_wishlist ''anon_1'' ''prime-vandal'' (Some ''daily'') ''t2'' demo_db
       = (demo_db, Inr ItemNotFound)
   \<and> server_delete_wishlist ''anon_1'' ''prime-vandal'' (Some ''daily'') demo_db
       = (demo_db, Inr ())
   \<and> fst (part0_delete_wishlist ''anon_1'' ''prime-vandal'' (Some ''store'') ''t2'' demo_db)
       = \<lparr>wishlist = [(''anon_1'', demo_user\<lparr>items := [], updatedAt := ''t2''\<rparr>)],
          skinSubscriptions = []\<rparr>
   \<and> server_post_wishlist ''u'' (Some ''k'') None (Some ''daily'') ''t'' empty_db
       = (\<lparr>wishlist =
            [(''u'', \<lparr>region = ''EU'',
                     items = [\<lparr>skinId = Some ''k'', skinName = ''Unknown'', source = ''daily'',
                               addedAt = ''t''\<rparr>],
                     createdAt = ''t'', updatedAt = ''t''\<rparr>)],
           skinSubscriptions = [(Some ''k'', [''u:EU:daily''])]\<rparr>,
          Inr ''valohub/EU/daily/k'')"
  by code_simp

section \<open>Adding the same item twice\<close>

lemma db_eta: "\<lparr>wishlist = wishlist d, skinSubscriptions = skinSubscriptions d\<rparr> = (d :: db)"
  by simp

lemma length_filter_le_1_ex:
  "list_ex P xs \<Longrightarrow> length (filter P xs) \<le> 1 \<Longrightarrow> length (filter P xs) = 1"
  by (cases "filter P xs") (auto simp: list_ex_filter)

lemma server_post_wishlist_twice:
  assumes k: "\<not> falsy k"
    and uniq: "held d uid k (default_source s) \<le> 1"
    and dist: "distinct (bucket (skinSubscriptions d) k)"
    and filed: "held d uid k (default_source s) = 1
                  \<Longrightarrow> key_of d uid (default_source s) \<in> set (bucket (skinSubscriptions d) k)"
    and first: "server_post_wishlist uid k n1 s t1 d = (d1, r1)"
  shows "server_post_wishlist uid k n2 s t2 d1 = (d1, r1)
       \<and> held d1 uid k (default_source s) = 1
       \<and> count_list (bucket (skinSubscriptions d1) k) (key_of d1 uid (default_source s)) = 1
       \<and> (\<exists>u1. Map_get (wishlist d1) uid = Some u1
             \<and> r1 = Inr (generateTopic (Some (region u1)) (Some (default_source s)) k))"
proof -
  let ?src = "default_source s"
  let ?P = "\<lambda>i. skinId i = k \<and> source i = ?src"
  show ?thesis
  proof (cases "Map_get (wishlist d) uid")
    case None
    let ?new = "\<lparr>skinId = k, skinName = (if falsy n1 then ''Unknown'' else js_str n1),
                   source = ?src, addedAt = t1\<rparr>"
    let ?u' = "(new_user ''EU'' t1)\<lparr>items := [?new]\<rparr>"
    from first k None have d1: "d1 = \<lparr>wishlist = Map_set uid ?u' (Map_set uid (new_user ''EU'' t1) (wishlist d)),
        skinSubscriptions = subs_insert k (subKey uid ''EU'' ?src) (skinSubscriptions d)\<rparr>"
      and r1: "r1 = Inr (generateTopic (Some ''EU'') (Some ?src) k)"
      by (auto simp: server_post_wishlist_def Let_def new_user_def)
    have g: "Map_get (wishlist d1) uid = Some ?u'"
      by (simp add: d1 Map_get_Map_set)
    have ex: "list_ex ?P (items ?u')" by simp
    have again: "server_post_wishlist uid k n2 s t2 d1 = (d1, r1)"
      using k g ex by (simp add: server_post_wishlist_def Let_def r1 new_user_def)
    have h: "held d1 uid k ?src = 1"
      by (simp add: held_def g)
    have ko: "key_of d1 uid ?src = subKey uid ''EU'' ?src"
      by (simp add: key_of_def region_of_def g new_user_def)
    have c: "count_list (bucket (skinSubscriptions d1) k) (key_of d1 uid ?src) = 1"
      unfolding ko using dist by (simp add: d1 bucket_subs_insert count_list_Set_add)
    show ?thesis using again h c g r1 by (simp add: new_user_def)
  next
    case (Some u)
    show ?thesis
    proof (cases "list_ex ?P (items u)")
      case True
      from first k Some True have d1: "d1 = d"
        and r1: "r1 = Inr (generateTopic (Some (region u)) (Some ?src) k)"
        by (auto simp: server_post_wishlist_def Let_def)
      have again: "server_post_wishlist uid k n2 s t2 d1 = (d1, r1)"
        using k Some True by (simp add: server_post_wishlist_def Let_def r1 d1)
      have h: "held d uid k ?src = 1"
        using uniq True length_filter_le_1_ex [of ?P "items u"] by (simp add: held_def Some)
      have c: "count_list (bucket (skinSubscriptions d) k) (key_of d uid ?src) = 1"
        using filed [OF h] dist by (simp add: count_list_distinct)
      show ?thesis using again h c Some r1 by (simp add: d1)
    next
      case False
      let ?new = "\<lparr>skinId = k, skinName = (if falsy n1 then ''Unknown'' else js_str n1),
                     source = ?src, addedAt = t1\<rparr>"
      let ?u' = "u\<lparr>items := items u @ [?new]\<rparr>"
      from first k Some False have d1: "d1 = \<lparr>wishlist = Map_set uid ?u' (wishlist d),
          skinSubscriptions = subs_insert k (subKey uid (region u) ?src) (skinSubscriptions d)\<rparr>"
        and r1: "r1 = Inr (generateTopic (Some (region u)) (Some ?src) k)"
        by (auto simp: server_post_wishlist_def Let_def)
      have g: "Map_get (wishlist d1) uid = Some ?u'"
        by (simp add: d1 Map_get_Map_set)
      have ex: "list_ex ?P (items ?u')" by simp
      have again: "server_post_wishlist uid k n2 s t2 d1 = (d1, r1)"
        using k g ex by (simp add: server_post_wishlist_def Let_def r1)
      have "filter ?P (items u) = []"
        using False by (simp add: list_ex_filter)
      then have h: "held d1 uid k ?src = 1"
        by (simp add: held_def g)
      have ko: "key_of d1 uid ?src = subKey uid (region u) ?src"
        by (simp add: key_of_def region_of_def g)
      have c: "count_list (bucket (skinSubscriptions d1) k) (key_of d1 uid ?src) = 1"
        unfolding ko using dist by (simp add: d1 bucket_subs_insert count_list_Set_add)
      show ?thesis using again h c g r1 by simp
    qed
  qed
qed


lemma part0_post_wishlist_twice:
  assumes uniq: "held d uid k (normalizeSource s) \<le> 1"
    and dist: "distinct (bucket (skinSubscriptions d) k)"
    and filed: "held d uid k (normalizeSource s) = 1
                  \<Longrightarrow> key_of d uid (normalizeSource s) \<in> set (bucket (skinSubscriptions d) k)"
    and first: "part0_post_wishlist uid k n1 s t1 d = (d1, r1)"
  shows "\<exists>t u1 reply. part0_post_wishlist uid k n2 s t2 d1 = (d1, Inr (AlreadyInWishlist t))
       \<and> r1 = Inr reply \<and> reply_topic reply = t
       \<and> held d1 uid k (normalizeSource s) = 1
       \<and> count_list (bucket (skinSubscriptions d1) k) (key_of d1 uid (normalizeSource s)) = 1
       \<and> Map_get (wishlist d1) uid = Some u1
       \<and> t = generateTopicName (Some (region u1)) (Some (normalizeSource s)) k"
proof -
  let ?src = "normalizeSource s"
  let ?P = "\<lambda>i. skinId i = k \<and> source i = ?src"
  show ?thesis
  proof (cases "Map_get (wishlist d) uid")
    case None
    let ?new = "\<lparr>skinId = k, skinName = (if falsy n1 then ''Unknown Skin'' else js_str n1),
                   source = ?src, addedAt = t1\<rparr>"
    let ?u' = "(new_user ''EU'' t1)\<lparr>items := [?new], updatedAt := t1\<rparr>"
    from first None have d1: "d1 = \<lparr>wishlist = Map_set uid ?u' (Map_set uid (new_user ''EU'' t1) (wishlist d)),
        skinSubscriptions = subs_insert k (subKey uid ''EU'' ?src) (skinSubscriptions d)\<rparr>"
      and r1: "r1 = Inr (Added ?new (generateTopicName (Some ''EU'') (Some ?src) k))"
      by (auto simp: part0_post_wishlist_def Let_def new_user_def)
    have g: "Map_get (wishlist d1) uid = Some ?u'"
      by (simp add: d1 Map_get_Map_set)
    have ex: "list_ex ?P (items ?u')" by simp
    have again: "part0_post_wishlist uid k n2 s t2 d1
        = (d1, Inr (AlreadyInWishlist (generateTopicName (Some ''EU'') (Some ?src) k)))"
      using g ex by (simp add: part0_post_wishlist_def Let_def new_user_def)
    have h: "held d1 uid k ?src = 1"
      by (simp add: held_def g)
    have ko: "key_of d1 uid ?src = subKey uid ''EU'' ?src"
      by (simp add: key_of_def region_of_def g new_user_def)
    have c: "count_list (bucket (skinSubscriptions d1) k) (key_of d1 uid ?src) = 1"
      unfolding ko using dist by (simp add: d1 bucket_subs_insert count_list_Set_add)
    show ?thesis using again h c g r1 by (simp add: new_user_def reply_topic_def)
  next
    case (Some u)
    show ?thesis
    proof (cases "list_ex ?P (items u)")
      case True
      from first Some True have d1: "d1 = d"
        and r1: "r1 = Inr (AlreadyInWishlist (generateTopicName (Some (region u)) (Some ?src) k))"
        by (auto simp: part0_post_wishlist_def Let_def)
      have again: "part0_post_wishlist uid k n2 s t2 d1
          = (d1, Inr (AlreadyInWishlist (generateTopicName (Some (region u)) (Some ?src) k)))"
        using Some True by (simp add: part0_post_wishlist_def Let_def d1)
      have h: "held d uid k ?src = 1"
        using uniq True length_filter_le_1_ex [of ?P "items u"] by (simp add: held_def Some)
      have c: "count_list (bucket (skinSubscriptions d) k) (key_of d uid ?src) = 1"
        using filed [OF h] dist by (simp add: count_list_distinct)
      show ?thesis using again h c Some r1 by (simp add: d1 reply_topic_def)
    next
      case False
      let ?new = "\<lparr>skinId = k, skinName = (if falsy n1 then ''Unknown Skin'' else js_str n1),
                     source = ?src, addedAt = t1\<rparr>"
      let ?u' = "u\<lparr>items := items u @ [?new], updatedAt := t1\<rparr>"
      from first Some False have d1: "d1 = \<lparr>wishlist = Map_set uid ?u' (wishlist d),
          skinSubscriptions = subs_insert k (subKey uid (region u) ?src) (skinSubscriptions d)\<rparr>"
        and r1: "r1 = Inr (Added ?new (generateTopicName (Some (region u)) (Some ?src) k))"
        by (auto simp: part0_post_wishlist_def Let_def)
      have g: "Map_get (wishlist d1) uid = Some ?u'"
        by (simp add: d1 Map_get_Map_set)
      have ex: "list_ex ?P (items ?u')" by simp
      have again: "part0_post_wishlist uid k n2 s t2 d1
          = (d1, Inr (AlreadyInWishlist (generateTopicName (Some (region u)) (Some ?src) k)))"
        using g ex by (simp add: part0_post_wishlist_def Let_def)
      have "filter ?P (items u) = []"
        using False by (simp add: list_ex_filter)
      then have h: "held d1 uid k ?src = 1"
        by (simp add: held_def g)
      have ko: "key_of d1 uid ?src = subKey uid (region u) ?src"
        by (simp add: key_of_def region_of_def g)
      have c: "count_list (bucket (skinSubscriptions d1) k) (key_of d1 uid ?src) = 1"
        unfolding ko using dist by (simp add: d1 bucket_subs_insert count_list_Set_add)
      show ?thesis using again h c g r1 by (simp add: reply_topic_def)
    qed
  qed
qed

text \<open>
  Both files, in a store that is in order for the pair (\<open>settled\<close>: the user holds the
  pair of skin and source at most once, the set of the skin repeats no key, and the key of a
  held pair is filed). After a first request to add the pair, a second request with the same
  pair changes nothing in the store and returns the same topic, the one of the held item;
  the user then holds exactly one matching item and the set of the skin holds the matching
  key exactly once. server.js takes the source as given and needs a skin id; the second file
  normalises the source.
\<close>

theorem add_item_twice:
  assumes "server_post_wishlist uid k n1 s t1 d = (d1, r1)"
    and "part0_post_wishlist uid k n1 s t1 d = (e1, q1)"
  shows "(\<not> falsy k \<and> settled d uid k (default_source s) \<longrightarrow>
            server_post_wishlist uid k n2 s t2 d1 = (d1, r1)
          \<and> held d1 uid k (default_source s) = 1
          \<and> count_list (bucket (skinSubscriptions d1) k) (key_of d1 uid (default_source s)) = 1
          \<and> (\<exists>u1. Map_get (wishlist d1) uid = Some u1
                \<and> r1 = Inr (generateTopic (Some (region u1)) (Some (default_source s)) k)))
       \<and> (settled d uid k (normalizeSource s) \<longrightarrow>
            (\<exists>t u1 reply. part0_post_wishlist uid k n2 s t2 e1 = (e1, Inr (AlreadyInWishlist t))
               \<and> q1 = Inr reply \<and> reply_topic reply = t
               \<and> held e1 uid k (normalizeSource s) = 1
               \<and> count_list (bucket (skinSubscriptions e1) k) (key_of e1 uid (normalizeSource s)) = 1
               \<and> Map_get (wishlist e1) uid = Some u1
               \<and> t = generateTopicName (Some (region u1)) (Some (normalizeSource s)) k))"
proof (intro conjI impI)
  assume h: "settled d uid k (normalizeSource s)"
  show "\<exists>t u1 reply. part0_post_wishlist uid k n2 s t2 e1 = (e1, Inr (AlreadyInWishlist t))
               \<and> q1 = Inr reply \<and> reply_topic reply = t
               \<and> held e1 uid k (normalizeSource s) = 1
               \<and> count_list (bucket (skinSubscriptions e1) k) (key_of e1 uid (normalizeSource s)) = 1
               \<and> Map_get (wishlist e1) uid = Some u1
               \<and> t = generateTopicName (Some (region u1)) (Some (normalizeSource s)) k"
    using part0_post_wishlist_twice [OF _ _ _ assms(2), of n2 t2] h
    by (simp add: settled_def)
next
  assume h: "\<not> falsy k \<and> settled d uid k (default_source s)"
  then have *: "server_post_wishlist uid k n2 s t2 d1 = (d1, r1)
       \<and> held d1 uid k (default_source s) = 1
       \<and> count_list (bucket (skinSubscriptions d1) k) (key_of d1 uid (default_source s)) = 1
       \<and> (\<exists>u1. Map_get (wishlist d1) uid = Some u1
             \<and> r1 = Inr (generateTopic (Some (region u1)) (Some (default_source s)) k))"
    using server_post_wishlist_twice [OF _ _ _ _ assms(1), of n2 t2]
    by (simp add: settled_def)
  from * show "server_post_wishlist uid k n2 s t2 d1 = (d1, r1)" by simp
  from * show "held d1 uid k (default_source s) = 1" by simp
  from * show "count_list (bucket (skinSubscriptions d1) k) (key_of d1 uid (default_source s)) = 1"
    by simp
  from * show "\<exists>u1. Map_get (wishlist d1) uid = Some u1
             \<and> r1 = Inr (generateTopic (Some (region u1)) (Some (default_source s)) k)" by simp
qed

theorem add_item_twice_witness:
  "\<not> falsy (Some ''k'') \<and> settled empty_db ''u'' (Some ''k'') (default_source None)
   \<and> settled empty_db ''u'' (Some ''k'') (normalizeSource None)
   \<and> server_post_wishlist ''u'' (Some ''k'') None None ''t2''
        (fst (server_post_wishlist ''u'' (Some ''k'') None None ''t1'' empty_db))
       = (fst (server_post_wishlist ''u'' (Some ''k'') None None ''t1'' empty_db),
          Inr ''valohub/EU/store/k'')
   \<and> held (fst (server_post_wishlist ''u'' (Some ''k'') None None ''t1'' empty_db))
        ''u'' (Some ''k'') ''store'' = 1
   \<and> held (fst (part0_post_wishlist ''u'' (Some ''k'') None None ''t1'' empty_db))
        ''u'' (Some ''k'') ''store'' = 1
   \<and> skinSubscriptions (fst (part0_post_wishlist ''u'' (Some ''k'') None None ''t1'' empty_db))
       = [(Some ''k'', [''u:EU:store''])]"
proof -
  let ?d1 = "\<lparr>wishlist =
        [(''u'', \<lparr>region = ''EU'',
                 items = [\<lparr>skinId = Some ''k'', skinName = ''Unknown'', source = ''store'',
                           addedAt = ''t1''\<rparr>],
                 createdAt = ''t1'', updatedAt = ''t1''\<rparr>)],
      skinSubscriptions = [(Some ''k'', [''u:EU:store''])]\<rparr>"
  let ?it = "\<lparr>skinId = Some ''k'', skinName = ''Unknown Skin'', source = ''store'',
              addedAt = ''t1''\<rparr>"
  let ?e1 = "\<lparr>wishlist =
        [(''u'', \<lparr>region = ''EU'', items = [?it], createdAt = ''t1'', updatedAt = ''t1''\<rparr>)],
      skinSubscriptions = [(Some ''k'', [''u:EU:store''])]\<rparr>"
  have a: "server_post_wishlist ''u'' (Some ''k'') None None ''t1'' empty_db
             = (?d1, Inr ''valohub/EU/store/k'')"
    by code_simp
  have b: "part0_post_wishlist ''u'' (Some ''k'') None None ''t1'' empty_db
             = (?e1, Inr (Added ?it ''valohub/EU/store/k''))"
    by code_simp
  have h1: "\<not> falsy (Some ''k'')" by code_simp
  have h2: "settled empty_db ''u'' (Some ''k'') (default_source None)" by code_simp
  have h3: "settled empty_db ''u'' (Some ''k'') (normalizeSource None)" by code_simp
  have s1: "default_source None = ''store''" by code_simp
  have s2: "normalizeSource None = ''store''" by code_simp
  from add_item_twice [OF a b, where ?n2.0 = None and ?t2.0 = "''t2''"] h1 h2 h3 show ?thesis
    unfolding a b s1 s2 by auto
qed

section \<open>Removing the last key of a skin\<close>

lemma no_empty_sets_Map_set:
  "no_empty_sets subs \<Longrightarrow> s \<noteq> [] \<Longrightarrow> no_empty_sets (Map_set k s subs)"
  using set_Map_set_subset [of k s subs] by (fastforce simp: no_empty_sets_def list_all_iff)

lemma no_empty_sets_Map_delete:
  "no_empty_sets subs \<Longrightarrow> no_empty_sets (Map_delete k subs)"
  by (auto simp: no_empty_sets_def list_all_iff Map_delete_def)

lemma Map_delete_Map_set: "Map_delete k (Map_set k v m) = Map_delete k m"
  by (induction m) (auto simp: Map_delete_def)

lemma no_empty_sets_subs_remove:
  "no_empty_sets subs \<Longrightarrow> no_empty_sets (subs_remove k e subs)"
  by (auto simp: subs_remove_def Let_def no_empty_sets_Map_set no_empty_sets_Map_delete
      Map_delete_Map_set split: option.splits)

lemma subs_remove_last:
  assumes "set (bucket subs k) = {e}"
  shows "Map_get (subs_remove k e subs) k = None"
proof (cases "Map_get subs k")
  case None
  with assms show ?thesis by (simp add: bucket_def)
next
  case (Some s)
  with assms have "set s = {e}" by (simp add: bucket_def)
  then have "Set_delete e s = []"
    by (auto simp: Set_delete_def filter_empty_conv)
  with Some show ?thesis
    by (simp add: subs_remove_def Let_def Map_get_Map_delete)
qed

text \<open>
  C4. For a known user, when the set of a skin holds nothing but the key that a removal
  deletes, the removal leaves the index without an entry for that skin, in both files (the
  second file removes only when the user holds a matching item). And a removal never leaves
  an empty set behind: an index without empty sets has none afterwards.
\<close>

theorem last_key_removed_drops_set:
  assumes "Map_get (wishlist d) uid = Some u"
  shows "(set (bucket (skinSubscriptions d) (Some sid)) = {subKey uid (region u) (server_query_source q)}
            \<longrightarrow> Map_get (skinSubscriptions (fst (server_delete_wishlist uid sid q d))) (Some sid) = None)
       \<and> (list_ex (\<lambda>i. skinId i = Some sid \<and> source i = default_source q) (items u)
            \<and> set (bucket (skinSubscriptions d) (Some sid)) = {subKey uid (region u) (default_source q)}
            \<longrightarrow> Map_get (skinSubscriptions (fst (part0_delete_wishlist uid sid q now d))) (Some sid) = None)
       \<and> (no_empty_sets (skinSubscriptions d)
            \<longrightarrow> no_empty_sets (skinSubscriptions (fst (server_delete_wishlist uid sid q d)))
              \<and> no_empty_sets (skinSubscriptions (fst (part0_delete_wishlist uid sid q now d))))"
proof (intro conjI impI)
  assume "set (bucket (skinSubscriptions d) (Some sid)) = {subKey uid (region u) (server_query_source q)}"
  then show "Map_get (skinSubscriptions (fst (server_delete_wishlist uid sid q d))) (Some sid) = None"
    using assms by (simp add: server_delete_wishlist_def Let_def subs_remove_last)
next
  let ?P = "\<lambda>i. skinId i = Some sid \<and> source i = default_source q"
  assume h: "list_ex ?P (items u)
      \<and> set (bucket (skinSubscriptions d) (Some sid)) = {subKey uid (region u) (default_source q)}"
  then have "filter ?P (items u) \<noteq> []"
    by (simp add: list_ex_filter)
  then have "length (filter (\<lambda>i. \<not> ?P i) (items u)) \<noteq> length (items u)"
    by (metis (mono_tags, lifting) filter_length_eq filter_filter filter_False)
  then show "Map_get (skinSubscriptions (fst (part0_delete_wishlist uid sid q now d))) (Some sid) = None"
    using assms h by (simp add: part0_delete_wishlist_def Let_def subs_remove_last)
next
  assume "no_empty_sets (skinSubscriptions d)"
  then show "no_empty_sets (skinSubscriptions (fst (server_delete_wishlist uid sid q d)))"
    using assms by (simp add: server_delete_wishlist_def Let_def no_empty_sets_subs_remove)
next
  assume "no_empty_sets (skinSubscriptions d)"
  then show "no_empty_sets (skinSubscriptions (fst (part0_delete_wishlist uid sid q now d)))"
    using assms by (simp add: part0_delete_wishlist_def Let_def no_empty_sets_subs_remove)
qed

theorem last_key_removed_drops_set_witness:
  "Map_get (wishlist demo_db) ''anon_1'' = Some demo_user
   \<and> list_ex (\<lambda>i. skinId i = Some ''prime-vandal'' \<and> source i = default_source (Some ''store''))
        (items demo_user)
   \<and> set (bucket (skinSubscriptions demo_db) (Some ''prime-vandal''))
       = {subKey ''anon_1'' (region demo_user) (default_source (Some ''store''))}
   \<and> no_empty_sets (skinSubscriptions demo_db)
   \<and> Map_get (skinSubscriptions
        (fst (server_delete_wishlist ''anon_1'' ''prime-vandal'' (Some ''store'') demo_db)))
        (Some ''prime-vandal'') = None
   \<and> Map_get (skinSubscriptions
        (fst (part0_delete_wishlist ''anon_1'' ''prime-vandal'' (Some ''store'') ''t2'' demo_db)))
        (Some ''prime-vandal'') = None"
proof -
  have g: "Map_get (wishlist demo_db) ''anon_1'' = Some demo_user"
    by code_simp
  have m: "list_ex (\<lambda>i. skinId i = Some ''prime-vandal'' \<and> source i = default_source (Some ''store''))
        (items demo_user)"
    by code_simp
  have b: "set (bucket (skinSubscriptions demo_db) (Some ''prime-vandal''))
       = {subKey ''anon_1'' (region demo_user) (default_source (Some ''store''))}"
    by code_simp
  have b': "set (bucket (skinSubscriptions demo_db) (Some ''prime-vandal''))
       = {subKey ''anon_1'' (region demo_user) (server_query_source (Some ''store''))}"
    by code_simp
  have n: "no_empty_sets (skinSubscriptions demo_db)"
    by code_simp
  from last_key_removed_drops_set [OF g, of "''prime-vandal''" "Some ''store''" "''t2''"] m b b' n
  show ?thesis using g by simp
qed

section \<open>Removing what is not there\<close>

lemma delete_wishlist_not_found_iff:
  "(snd (server_delete_wishlist uid sid q d) = Inl UserNotFound \<longleftrightarrow> Map_get (wishlist d) uid = None)
   \<and> (snd (part0_delete_wishlist uid sid q now d) = Inl UserNotFound
        \<longleftrightarrow> Map_get (wishlist d) uid = None)"
  by (auto simp: server_delete_wishlist_def part0_delete_wishlist_def Let_def split: option.splits)

lemma part0_delete_wishlist_no_match:
  assumes "Map_get (wishlist d) uid = Some u"
    and "\<not> list_ex (\<lambda>i. skinId i = Some sid \<and> source i = default_source q) (items u)"
  shows "part0_delete_wishlist uid sid q now d = (d, Inr ItemNotFound)"
proof -
  have "filter (\<lambda>i. \<not> (skinId i = Some sid \<and> source i = default_source q)) (items u) = items u"
    using assms(2) by (auto simp: list_ex_iff filter_id_conv)
  then show ?thesis
    using assms(1) by (simp add: part0_delete_wishlist_def Let_def Map_set_same)
qed

lemma part0_delete_wishlist_repeat:
  assumes "Map_get (wishlist d) uid = Some u"
  shows "part0_delete_wishlist uid sid q t2 (fst (part0_delete_wishlist uid sid q t1 d))
           = (fst (part0_delete_wishlist uid sid q t1 d), Inr ItemNotFound)"
proof -
  let ?P = "\<lambda>i. skinId i = Some sid \<and> source i = default_source q"
  have "\<exists>u'. Map_get (wishlist (fst (part0_delete_wishlist uid sid q t1 d))) uid = Some u'
          \<and> items u' = filter (\<lambda>i. \<not> ?P i) (items u)"
    using assms
    by (cases "length (filter (\<lambda>i. \<not> ?P i) (items u)) = length (items u)")
       (simp_all add: part0_delete_wishlist_def Let_def Map_get_Map_set)
  then obtain u' where g: "Map_get (wishlist (fst (part0_delete_wishlist uid sid q t1 d))) uid = Some u'"
    and i: "items u' = filter (\<lambda>i. \<not> ?P i) (items u)"
    by blast
  have "\<not> list_ex ?P (items u')"
    by (simp add: i list_ex_iff)
  then show ?thesis
    using part0_delete_wishlist_no_match [OF g] by simp
qed

section \<open>Splitting a key\<close>

lemma split_on_not_Nil: "split_on c s \<noteq> []"
  by (induction s) (auto split: list.splits)

lemma split_on_no_sep: "c \<notin> set s \<Longrightarrow> split_on c s = [s]"
  by (induction s) auto

lemma split_on_prefix: "c \<notin> set u \<Longrightarrow> split_on c (u @ c # rest) = u # split_on c rest"
  by (induction u) (auto split: list.splits simp: split_on_not_Nil)

lemma split_subKey:
  assumes "CHR '':'' \<notin> set uid" and "CHR '':'' \<notin> set r" and "CHR '':'' \<notin> set s"
  shows "split_on (CHR '':'') (subKey uid r s) = [uid, r, s]"
  using assms by (simp add: subKey_def split_on_prefix split_on_no_sep)

lemma regions_no_sep: "r \<in> set regions \<Longrightarrow> CHR '':'' \<notin> set r"
  by (auto simp: regions_def)

lemma validSources_no_sep: "s \<in> set validSources \<Longrightarrow> CHR '':'' \<notin> set s"
  by (auto simp: validSources_def)

lemma normalizeRegion_valid: "normalizeRegion r \<in> set regions"
  by (simp add: normalizeRegion_def Let_def) (simp add: regions_def)

section \<open>The topic at add time and at query time\<close>

lemma region_of_valid: "regions_valid d \<Longrightarrow> region_of d uid \<in> set regions"
  by (auto simp: regions_valid_def region_of_def list_all_iff Map_get_def regions_def
      split: option.splits dest!: map_of_SomeD)

lemma held_pos_list_ex:
  "Map_get (wishlist d) uid = Some u \<Longrightarrow>
     (held d uid k src = 0) = (\<not> list_ex (\<lambda>i. skinId i = k \<and> source i = src) (items u))"
  by (simp add: held_def list_ex_filter)

lemma server_post_wishlist_result:
  assumes "\<not> falsy k"
  shows "snd (server_post_wishlist uid k n s now d)
           = Inr (generateTopic (Some (region_of d uid)) (Some (default_source s)) k)
       \<and> region_of (fst (server_post_wishlist uid k n s now d)) uid = region_of d uid
       \<and> (filed d uid k (default_source s) \<longrightarrow>
            subKey uid (region_of d uid) (default_source s)
              \<in> set (bucket (skinSubscriptions (fst (server_post_wishlist uid k n s now d))) k))"
proof (cases "Map_get (wishlist d) uid")
  case None
  then show ?thesis
    using assms
    by (simp add: server_post_wishlist_def Let_def region_of_def new_user_def Map_get_Map_set
        bucket_subs_insert set_Set_add)
next
  case (Some u)
  show ?thesis
  proof (cases "list_ex (\<lambda>i. skinId i = k \<and> source i = default_source s) (items u)")
    case True
    then show ?thesis
      using assms Some held_pos_list_ex [OF Some, of k "default_source s"]
      by (simp add: server_post_wishlist_def Let_def region_of_def filed_def key_of_def)
  next
    case False
    then show ?thesis
      using assms Some
      by (simp add: server_post_wishlist_def Let_def region_of_def Map_get_Map_set
          bucket_subs_insert set_Set_add)
  qed
qed

lemma part0_post_wishlist_result:
  "(\<exists>reply. snd (part0_post_wishlist uid k n s now d) = Inr reply
       \<and> reply_topic reply
           = generateTopicName (Some (region_of d uid)) (Some (normalizeSource s)) k)
   \<and> region_of (fst (part0_post_wishlist uid k n s now d)) uid = region_of d uid
   \<and> (filed d uid k (normalizeSource s) \<longrightarrow>
        subKey uid (region_of d uid) (normalizeSource s)
          \<in> set (bucket (skinSubscriptions (fst (part0_post_wishlist uid k n s now d))) k))"
proof (cases "Map_get (wishlist d) uid")
  case None
  then show ?thesis
    by (simp add: part0_post_wishlist_def Let_def region_of_def new_user_def Map_get_Map_set
        bucket_subs_insert set_Set_add reply_topic_def)
next
  case (Some u)
  show ?thesis
  proof (cases "list_ex (\<lambda>i. skinId i = k \<and> source i = normalizeSource s) (items u)")
    case True
    then show ?thesis
      using Some held_pos_list_ex [OF Some, of k "normalizeSource s"]
      by (simp add: part0_post_wishlist_def Let_def region_of_def filed_def key_of_def
          reply_topic_def)
  next
    case False
    then show ?thesis
      using Some
      by (simp add: part0_post_wishlist_def Let_def region_of_def Map_get_Map_set
          bucket_subs_insert set_Set_add reply_topic_def)
  qed
qed

lemma server_parse_sub_subKey:
  assumes "CHR '':'' \<notin> set uid" and "CHR '':'' \<notin> set r" and "CHR '':'' \<notin> set s"
  shows "server_parse_sub sid (subKey uid r s)
           = \<lparr>sub_anonUserId = Some uid, sub_region = Some r, sub_source = Some s,
              sub_topic = generateTopic (Some r) (Some s) (Some sid)\<rparr>"
  by (simp add: server_parse_sub_def split_subKey [OF assms] numeral_2_eq_2)

lemma part0_parse_sub_subKey:
  assumes "CHR '':'' \<notin> set uid" and "CHR '':'' \<notin> set r" and "CHR '':'' \<notin> set s"
  shows "part0_parse_sub sid (subKey uid r s)
           = \<lparr>sub_anonUserId = Some uid, sub_region = Some r, sub_source = Some s,
              sub_topic = generateTopicName (Some r) (Some s) (Some sid)\<rparr>"
  by (simp add: part0_parse_sub_def split_subKey [OF assms] numeral_2_eq_2)

lemma server_get_subscriptions_bucket:
  "checkWorkerKey e key \<Longrightarrow>
     server_get_subscriptions e key sid d
       = Inr (map (server_parse_sub sid) (bucket (skinSubscriptions d) (Some sid)))"
  by (simp add: server_get_subscriptions_def bucket_def split: option.splits)

lemma part0_get_subscriptions_bucket:
  "\<not> part0_unauthorized e key \<Longrightarrow>
     part0_get_subscriptions e key sid d
       = Inr (sid, map (part0_parse_sub sid) (bucket (skinSubscriptions d) (Some sid)))"
  by (simp add: part0_get_subscriptions_def bucket_def split: option.splits)

text \<open>
  C5, as amended. Let the user id contain no \<open>:\<close> and the users' regions be supported
  ones. After a request adds (or finds) the pair of skin and source, the worker's query for
  the skin returns a record for this user, region and source whose topic is the very topic
  the add request returned. In server.js, where the source is stored as given, the source
  must contain no \<open>:\<close> either; the second file normalises it. (The add request files the
  key when it appends the item; \<open>filed\<close> asks that an item already held has its key.)
\<close>

theorem topic_round_trip:
  assumes uid: "CHR '':'' \<notin> set uid" and reg: "regions_valid d"
  shows "(sid \<noteq> [] \<and> CHR '':'' \<notin> set (default_source s)
            \<and> filed d uid (Some sid) (default_source s) \<and> checkWorkerKey e key \<longrightarrow>
          (\<exists>t. snd (server_post_wishlist uid (Some sid) n s now d) = Inr t
             \<and> (\<exists>r. server_get_subscriptions e key sid
                        (fst (server_post_wishlist uid (Some sid) n s now d)) = Inr r
                    \<and> \<lparr>sub_anonUserId = Some uid, sub_region = Some (region_of d uid),
                        sub_source = Some (default_source s), sub_topic = t\<rparr> \<in> set r)))
       \<and> (filed d uid (Some sid) (normalizeSource s) \<and> \<not> part0_unauthorized e key \<longrightarrow>
          (\<exists>reply. snd (part0_post_wishlist uid (Some sid) n s now d) = Inr reply
             \<and> (\<exists>r. part0_get_subscriptions e key sid
                        (fst (part0_post_wishlist uid (Some sid) n s now d)) = Inr (sid, r)
                    \<and> \<lparr>sub_anonUserId = Some uid, sub_region = Some (region_of d uid),
                        sub_source = Some (normalizeSource s), sub_topic = reply_topic reply\<rparr>
                         \<in> set r)))"
proof (intro conjI impI)
  have r: "CHR '':'' \<notin> set (region_of d uid)"
    using region_of_valid [OF reg] regions_no_sep by blast
  {
    assume h: "sid \<noteq> [] \<and> CHR '':'' \<notin> set (default_source s)
            \<and> filed d uid (Some sid) (default_source s) \<and> checkWorkerKey e key"
    let ?d1 = "fst (server_post_wishlist uid (Some sid) n s now d)"
    let ?key = "subKey uid (region_of d uid) (default_source s)"
    have nf: "\<not> falsy (Some sid)" using h by (simp add: falsy_def)
    note res = server_post_wishlist_result [OF nf, of uid n s now d]
    have mem: "?key \<in> set (bucket (skinSubscriptions ?d1) (Some sid))"
      using res h by simp
    have "server_parse_sub sid ?key \<in> set (map (server_parse_sub sid) (bucket (skinSubscriptions ?d1) (Some sid)))"
      using mem by simp
    then show "\<exists>t. snd (server_post_wishlist uid (Some sid) n s now d) = Inr t
             \<and> (\<exists>r. server_get_subscriptions e key sid ?d1 = Inr r
                    \<and> \<lparr>sub_anonUserId = Some uid, sub_region = Some (region_of d uid),
                        sub_source = Some (default_source s), sub_topic = t\<rparr> \<in> set r)"
      using res h server_get_subscriptions_bucket [of e key sid ?d1]
        server_parse_sub_subKey [OF uid r, of "default_source s" sid]
      by simp
  }
  {
    assume h: "filed d uid (Some sid) (normalizeSource s) \<and> \<not> part0_unauthorized e key"
    let ?d1 = "fst (part0_post_wishlist uid (Some sid) n s now d)"
    let ?key = "subKey uid (region_of d uid) (normalizeSource s)"
    note res = part0_post_wishlist_result [of uid "Some sid" n s now d]
    have ns: "CHR '':'' \<notin> set (normalizeSource s)"
      using normalizeSource_valid validSources_no_sep by blast
    have mem: "?key \<in> set (bucket (skinSubscriptions ?d1) (Some sid))"
      using res h by simp
    have "part0_parse_sub sid ?key \<in> set (map (part0_parse_sub sid) (bucket (skinSubscriptions ?d1) (Some sid)))"
      using mem by simp
    then show "\<exists>reply. snd (part0_post_wishlist uid (Some sid) n s now d) = Inr reply
             \<and> (\<exists>r. part0_get_subscriptions e key sid ?d1 = Inr (sid, r)
                    \<and> \<lparr>sub_anonUserId = Some uid, sub_region = Some (region_of d uid),
                        sub_source = Some (normalizeSource s), sub_topic = reply_topic reply\<rparr>
                         \<in> set r)"
      using res h part0_get_subscriptions_bucket [of e key sid ?d1]
        part0_parse_sub_subKey [OF uid r ns, of sid]
      by auto
  }
qed


theorem topic_round_trip_witness:
  "CHR '':'' \<notin> set ''u'' \<and> regions_valid empty_db \<and> ''k'' \<noteq> []
   \<and> CHR '':'' \<notin> set (default_source None)
   \<and> filed empty_db ''u'' (Some ''k'') (default_source None) \<and> checkWorkerKey dev_env None
   \<and> filed empty_db ''u'' (Some ''k'') (normalizeSource None) \<and> \<not> part0_unauthorized dev_env None
   \<and> (\<exists>t. snd (server_post_wishlist ''u'' (Some ''k'') None None ''t1'' empty_db) = Inr t
         \<and> (\<exists>r. server_get_subscriptions dev_env None ''k''
                    (fst (server_post_wishlist ''u'' (Some ''k'') None None ''t1'' empty_db)) = Inr r
                \<and> \<lparr>sub_anonUserId = Some ''u'', sub_region = Some (region_of empty_db ''u''),
                    sub_source = Some (default_source None), sub_topic = t\<rparr> \<in> set r))
   \<and> (\<exists>reply. snd (part0_post_wishlist ''u'' (Some ''k'') None None ''t1'' empty_db) = Inr reply
         \<and> (\<exists>r. part0_get_subscriptions dev_env None ''k''
                    (fst (part0_post_wishlist ''u'' (Some ''k'') None None ''t1'' empty_db))
                  = Inr (''k'', r)
                \<and> \<lparr>sub_anonUserId = Some ''u'', sub_region = Some (region_of empty_db ''u''),
                    sub_source = Some (normalizeSource None), sub_topic = reply_topic reply\<rparr>
                     \<in> set r))"
proof -
  have h1: "CHR '':'' \<notin> set ''u''" by simp
  have h2: "regions_valid empty_db" by code_simp
  have h3: "''k'' \<noteq> []" by simp
  have h4: "CHR '':'' \<notin> set (default_source None)" by code_simp
  have h5: "filed empty_db ''u'' (Some ''k'') (default_source None)" by code_simp
  have h6: "checkWorkerKey dev_env None" by code_simp
  have h7: "filed empty_db ''u'' (Some ''k'') (normalizeSource None)" by code_simp
  have h8: "\<not> part0_unauthorized dev_env None" by code_simp
  from topic_round_trip [OF h1 h2, of "''k''" None dev_env None None "''t1''"]
  show ?thesis
    using h1 h2 h3 h4 h5 h6 h7 h8 by blast
qed

text \<open>
  C5, as stated, fails. For the user id \<open>a:b\<close> the add request returns the topic
  \<open>valohub/EU/store/k\<close>, and the worker's query splits the stored key \<open>a:b:EU:store\<close>
  into user \<open>a\<close>, region \<open>b\<close> and source \<open>EU\<close>, with the topic \<open>valohub/b/EU/k\<close>.
  Both files.
\<close>

theorem topic_round_trip_counterexample:
  "CHR '':'' \<in> set ''a:b''
   \<and> server_post_wishlist ''a:b'' (Some ''k'') None None ''t1'' empty_db
       = (\<lparr>wishlist =
            [(''a:b'', \<lparr>region = ''EU'',
                       items = [\<lparr>skinId = Some ''k'', skinName = ''Unknown'', source = ''store'',
                                 addedAt = ''t1''\<rparr>],
                       createdAt = ''t1'', updatedAt = ''t1''\<rparr>)],
           skinSubscriptions = [(Some ''k'', [''a:b:EU:store''])]\<rparr>,
          Inr ''valohub/EU/store/k'')
   \<and> server_get_subscriptions dev_env None ''k''
        (fst (server_post_wishlist ''a:b'' (Some ''k'') None None ''t1'' empty_db))
       = Inr [\<lparr>sub_anonUserId = Some ''a'', sub_region = Some ''b'', sub_source = Some ''EU'',
               sub_topic = ''valohub/b/EU/k''\<rparr>]
   \<and> snd (part0_post_wishlist ''a:b'' (Some ''k'') None None ''t1'' empty_db)
       = Inr (Added \<lparr>skinId = Some ''k'', skinName = ''Unknown Skin'', source = ''store'',
                     addedAt = ''t1''\<rparr> ''valohub/EU/store/k'')
   \<and> part0_get_subscriptions dev_env None ''k''
        (fst (part0_post_wishlist ''a:b'' (Some ''k'') None None ''t1'' empty_db))
       = Inr (''k'', [\<lparr>sub_anonUserId = Some ''a'', sub_region = Some ''b'',
                       sub_source = Some ''EU'', sub_topic = ''valohub/b/EU/k''\<rparr>])"
  by code_simp

section \<open>Changing a user's region\<close>

lemma takeWhile_upto_sep: "c \<notin> set r \<Longrightarrow> takeWhile (\<lambda>x. x \<noteq> c) (r @ c # s) = r"
  by (induction r) auto

lemma append_sep_cancel:
  assumes "c \<notin> set r" and "c \<notin> set r'" and "r @ c # s = r' @ c # s'"
  shows "r = r' \<and> s = s'"
proof -
  have "takeWhile (\<lambda>x. x \<noteq> c) (r @ c # s) = r"
    using assms(1) by (rule takeWhile_upto_sep)
  moreover have "takeWhile (\<lambda>x. x \<noteq> c) (r' @ c # s') = r'"
    using assms(2) by (rule takeWhile_upto_sep)
  ultimately have "r = r'" using assms(3) by simp
  with assms(3) show ?thesis by simp
qed

lemma subKey_same_user:
  assumes "CHR '':'' \<notin> set r" and "CHR '':'' \<notin> set r'" and "subKey uid r s = subKey uid r' s'"
  shows "r = r' \<and> s = s'"
  using assms append_sep_cancel [of "CHR '':''" r r' s s'] by (simp add: subKey_def)

lemma bucket_server_relocate:
  "bucket (server_relocate uid old new i subs) k =
     (if k = skinId i \<and> Map_get subs k \<noteq> None
      then Set_add (subKey uid new (source i)) (Set_delete (subKey uid old (source i)) (bucket subs k))
      else bucket subs k)"
proof (cases "Map_get subs (skinId i)")
  case None
  then show ?thesis by (auto simp: server_relocate_def)
next
  case (Some s)
  then show ?thesis by (simp add: server_relocate_def bucket_Map_set bucket_present)
qed

lemma present_server_relocate:
  "(Map_get (server_relocate uid old new i subs) k = None) = (Map_get subs k = None)"
  by (auto simp: server_relocate_def Map_get_Map_set split: option.splits)

lemma present_fold_server_relocate:
  "(Map_get (fold (server_relocate uid old new) xs subs) k = None) = (Map_get subs k = None)"
  by (induction xs arbitrary: subs) (simp_all add: present_server_relocate)

lemma bucket_part0_relocate:
  "bucket (part0_relocate uid old new i subs) k =
     (if k = skinId i
      then Set_add (subKey uid new (source i)) (Set_delete (subKey uid old (source i)) (bucket subs k))
      else bucket subs k)"
proof (cases "Map_get subs (skinId i)")
  case None
  then show ?thesis
    by (simp add: part0_relocate_def bucket_subs_insert bucket_absent Set_delete_def)
next
  case (Some s)
  then show ?thesis
    by (simp add: part0_relocate_def bucket_subs_insert bucket_Map_set bucket_present)
qed

text \<open>The keys of the items of skin \<open>k\<close> in a list, for one user and region.\<close>

lemma keys_cross:
  assumes "CHR '':'' \<notin> set old" and "CHR '':'' \<notin> set new"
    and "subKey uid new s \<in> (\<lambda>i. subKey uid old (source i)) ` A"
  shows "subKey uid new s \<in> (\<lambda>i. subKey uid new (source i)) ` A"
proof -
  from assms(3) obtain i where i: "i \<in> A" "subKey uid new s = subKey uid old (source i)" by blast
  from subKey_same_user [OF assms(2,1) i(2)] have "new = old" "s = source i" by simp_all
  with i show ?thesis by blast
qed

lemma relocate_step_sets:
  "(n \<in> Old \<Longrightarrow> n \<in> New) \<Longrightarrow>
     (insert n (B - {m}) - Old) \<union> New = (B - insert m Old) \<union> insert n New"
  by blast

lemma set_bucket_fold_part0_relocate:
  assumes "CHR '':'' \<notin> set old" and "CHR '':'' \<notin> set new"
  shows "set (bucket (fold (part0_relocate uid old new) xs subs) k)
           = (set (bucket subs k) - (\<lambda>i. subKey uid old (source i)) ` {i \<in> set xs. skinId i = k})
             \<union> (\<lambda>i. subKey uid new (source i)) ` {i \<in> set xs. skinId i = k}"
proof (induction xs arbitrary: subs)
  case Nil
  show ?case by simp
next
  case (Cons x xs)
  let ?A = "{i \<in> set xs. skinId i = k}"
  let ?Old = "(\<lambda>i. subKey uid old (source i)) ` ?A"
  let ?New = "(\<lambda>i. subKey uid new (source i)) ` ?A"
  let ?B = "set (bucket subs k)"
  have IH: "set (bucket (fold (part0_relocate uid old new) (x # xs) subs) k)
      = (set (bucket (part0_relocate uid old new x subs) k) - ?Old) \<union> ?New"
    by (simp add: Cons.IH)
  show ?case
  proof (cases "k = skinId x")
    case True
    then have eq: "{i \<in> set (x # xs). skinId i = k} = insert x ?A" by auto
    have cross: "subKey uid new (source x) \<in> ?Old \<Longrightarrow> subKey uid new (source x) \<in> ?New"
      by (rule keys_cross [OF assms])
    have "set (bucket (part0_relocate uid old new x subs) k)
        = insert (subKey uid new (source x)) (?B - {subKey uid old (source x)})"
      using True by (simp add: bucket_part0_relocate set_Set_add set_Set_delete)
    with IH have "set (bucket (fold (part0_relocate uid old new) (x # xs) subs) k)
        = (insert (subKey uid new (source x)) (?B - {subKey uid old (source x)}) - ?Old) \<union> ?New"
      by simp
    also have "\<dots> = (?B - insert (subKey uid old (source x)) ?Old)
                     \<union> insert (subKey uid new (source x)) ?New"
      using cross by (rule relocate_step_sets)
    finally show ?thesis
      unfolding eq by simp
  next
    case False
    then have eq: "{i \<in> set (x # xs). skinId i = k} = ?A" by auto
    show ?thesis
      unfolding eq IH using False by (simp add: bucket_part0_relocate)
  qed
qed

lemma set_bucket_fold_server_relocate:
  assumes "CHR '':'' \<notin> set old" and "CHR '':'' \<notin> set new" and "Map_get subs k \<noteq> None"
  shows "set (bucket (fold (server_relocate uid old new) xs subs) k)
           = (set (bucket subs k) - (\<lambda>i. subKey uid old (source i)) ` {i \<in> set xs. skinId i = k})
             \<union> (\<lambda>i. subKey uid new (source i)) ` {i \<in> set xs. skinId i = k}"
  using assms(3)
proof (induction xs arbitrary: subs)
  case Nil
  show ?case by simp
next
  case (Cons x xs)
  let ?A = "{i \<in> set xs. skinId i = k}"
  let ?Old = "(\<lambda>i. subKey uid old (source i)) ` ?A"
  let ?New = "(\<lambda>i. subKey uid new (source i)) ` ?A"
  let ?B = "set (bucket subs k)"
  have "Map_get (server_relocate uid old new x subs) k \<noteq> None"
    using Cons.prems by (simp add: present_server_relocate)
  then have IH: "set (bucket (fold (server_relocate uid old new) (x # xs) subs) k)
      = (set (bucket (server_relocate uid old new x subs) k) - ?Old) \<union> ?New"
    by (simp add: Cons.IH)
  show ?case
  proof (cases "k = skinId x")
    case True
    then have eq: "{i \<in> set (x # xs). skinId i = k} = insert x ?A" by auto
    have cross: "subKey uid new (source x) \<in> ?Old \<Longrightarrow> subKey uid new (source x) \<in> ?New"
      by (rule keys_cross [OF assms(1,2)])
    have "set (bucket (server_relocate uid old new x subs) k)
        = insert (subKey uid new (source x)) (?B - {subKey uid old (source x)})"
      using True Cons.prems by (simp add: bucket_server_relocate set_Set_add set_Set_delete)
    with IH have "set (bucket (fold (server_relocate uid old new) (x # xs) subs) k)
        = (insert (subKey uid new (source x)) (?B - {subKey uid old (source x)}) - ?Old) \<union> ?New"
      by simp
    also have "\<dots> = (?B - insert (subKey uid old (source x)) ?Old)
                     \<union> insert (subKey uid new (source x)) ?New"
      using cross by (rule relocate_step_sets)
    finally show ?thesis
      unfolding eq by simp
  next
    case False
    then have eq: "{i \<in> set (x # xs). skinId i = k} = ?A" by auto
    show ?thesis
      unfolding eq IH using False by (simp add: bucket_server_relocate)
  qed
qed


lemma server_put_region_known:
  assumes "Map_get (wishlist d) uid = Some u"
  shows "server_put_region uid r now d
           = (\<lparr>wishlist = Map_set uid (u\<lparr>region := normalizeRegion r, updatedAt := now\<rparr>) (wishlist d),
               skinSubscriptions = fold (server_relocate uid (region u) (normalizeRegion r)) (items u)
                                     (skinSubscriptions d)\<rparr>,
              Inr (normalizeRegion r))"
  using assms by (simp add: server_put_region_def Let_def)

lemma part0_put_region_known:
  assumes "Map_get (wishlist d) uid = Some u"
  shows "part0_put_region uid r now d
           = (\<lparr>wishlist = Map_set uid (u\<lparr>region := normalizeRegion r, updatedAt := now\<rparr>) (wishlist d),
               skinSubscriptions = fold (part0_relocate uid (region u) (normalizeRegion r)) (items u)
                                     (skinSubscriptions d)\<rparr>,
              Inr (normalizeRegion r))"
  using assms by (simp add: part0_put_region_def Let_def)

section \<open>Active skins\<close>

lemma part0_active_step_eq:
  "part0_active_step q k e acc = (if passes q e then active_add k (key_region e) acc else acc)"
  by (simp add: part0_active_step_def passes_def key_region_def key_source_def Let_def)

lemma Map_get_active_add:
  "Map_get (active_add k r acc) k' = (if k' = k then Some (Set_add r (listed acc k)) else Map_get acc k')"
  by (simp add: active_add_def Let_def Map_get_Map_set Map_has_get listed_def)

lemma listed_active_add:
  "listed (active_add k r acc) k' = (if k' = k then Set_add r (listed acc k) else listed acc k')"
  by (simp add: listed_def Map_get_active_add)

lemma keys_active_add: "distinct (map fst acc) \<Longrightarrow> distinct (map fst (active_add k r acc))"
  by (simp add: active_add_def Let_def distinct_Map_set)

lemma Map_get_part0_active_step:
  "Map_get (part0_active_step q k e acc) k' =
     (if k' = k \<and> passes q e then Some (Set_add (key_region e) (listed acc k)) else Map_get acc k')"
  by (simp add: part0_active_step_eq Map_get_active_add)

lemma listed_part0_active_step:
  "listed (part0_active_step q k e acc) k' =
     (if k' = k \<and> passes q e then Set_add (key_region e) (listed acc k) else listed acc k')"
  by (simp add: listed_def Map_get_part0_active_step)

lemma inner_fold_listed:
  "set (listed (fold (part0_active_step q k) s acc) k') =
     (if k' = k then set (listed acc k) \<union> key_region ` {e \<in> set s. passes q e}
      else set (listed acc k'))"
proof (induction s arbitrary: acc)
  case Nil
  show ?case by simp
next
  case (Cons e s)
  show ?case
    by (simp add: Cons.IH listed_part0_active_step set_Set_add) auto
qed

lemma Map_has_part0_active_step:
  "Map_has (part0_active_step q k e acc) k' = (Map_has acc k' \<or> (k' = k \<and> passes q e))"
  by (auto simp: Map_has_get Map_get_part0_active_step)

lemma inner_fold_present:
  "Map_has (fold (part0_active_step q k) s acc) k' =
     (Map_has acc k' \<or> (k' = k \<and> (\<exists>e \<in> set s. passes q e)))"
proof (induction s arbitrary: acc)
  case Nil
  show ?case by simp
next
  case (Cons e s)
  show ?case
    by (simp add: Cons.IH Map_has_part0_active_step) blast
qed

lemma inner_fold_distinct_listed:
  "distinct (listed acc k') \<Longrightarrow> distinct (listed (fold (part0_active_step q k) s acc) k')"
proof (induction s arbitrary: acc)
  case Nil
  then show ?case by simp
next
  case (Cons e s)
  have "distinct (listed (part0_active_step q k e acc) k')"
    using Cons.prems by (auto simp: listed_part0_active_step distinct_Set_add)
  then show ?case
    by (simp add: Cons.IH)
qed

lemma inner_fold_keys:
  "distinct (map fst acc) \<Longrightarrow> distinct (map fst (fold (part0_active_step q k) s acc))"
proof (induction s arbitrary: acc)
  case Nil
  then show ?case by simp
next
  case (Cons e s)
  have "distinct (map fst (part0_active_step q k e acc))"
    using Cons.prems by (simp add: part0_active_step_eq keys_active_add)
  then show ?case
    by (simp add: Cons.IH)
qed

text \<open>The outer loop, from any accumulated map.\<close>

lemma outer_fold_listed:
  "set (listed (fold (\<lambda>(k, s) acc. fold (part0_active_step q k) s acc) subs acc) k') =
     set (listed acc k') \<union> key_region ` {e. \<exists>s. (k', s) \<in> set subs \<and> e \<in> set s \<and> passes q e}"
proof (induction subs arbitrary: acc)
  case Nil
  show ?case by simp
next
  case (Cons p subs)
  obtain k s where p: "p = (k, s)" by (cases p)
  show ?case
    by (simp add: p Cons.IH inner_fold_listed) blast
qed

lemma outer_fold_present:
  "Map_has (fold (\<lambda>(k, s) acc. fold (part0_active_step q k) s acc) subs acc) k' =
     (Map_has acc k' \<or> (\<exists>s e. (k', s) \<in> set subs \<and> e \<in> set s \<and> passes q e))"
proof (induction subs arbitrary: acc)
  case Nil
  show ?case by simp
next
  case (Cons p subs)
  obtain k s where p: "p = (k, s)" by (cases p)
  show ?case
    by (simp add: p Cons.IH inner_fold_present) blast
qed

lemma outer_fold_distinct_listed:
  "distinct (listed acc k') \<Longrightarrow>
     distinct (listed (fold (\<lambda>(k, s) acc. fold (part0_active_step q k) s acc) subs acc) k')"
proof (induction subs arbitrary: acc)
  case Nil
  then show ?case by simp
next
  case (Cons p subs)
  obtain k s where p: "p = (k, s)" by (cases p)
  have "distinct (listed (fold (part0_active_step q k) s acc) k')"
    using Cons.prems by (rule inner_fold_distinct_listed)
  then show ?case
    by (simp add: p Cons.IH)
qed

lemma outer_fold_keys:
  "distinct (map fst acc) \<Longrightarrow>
     distinct (map fst (fold (\<lambda>(k, s) acc. fold (part0_active_step q k) s acc) subs acc))"
proof (induction subs arbitrary: acc)
  case Nil
  then show ?case by simp
next
  case (Cons p subs)
  obtain k s where p: "p = (k, s)" by (cases p)
  have "distinct (map fst (fold (part0_active_step q k) s acc))"
    using Cons.prems by (rule inner_fold_keys)
  then show ?case
    by (simp add: p Cons.IH)
qed


lemma pairs_of_bucket:
  assumes "distinct (map fst subs)"
  shows "{e. \<exists>s. (k, s) \<in> set subs \<and> e \<in> set s \<and> P e} = {e \<in> set (bucket subs k). P e}"
proof -
  have m: "(k, s) \<in> set subs \<longleftrightarrow> Map_get subs k = Some s" for s
    using assms by (simp add: Map_get_def)
  show ?thesis
  proof (cases "Map_get subs k")
    case None
    then show ?thesis by (simp add: m bucket_def)
  next
    case (Some b)
    then show ?thesis by (auto simp: m bucket_def)
  qed
qed

lemma listed_Nil: "listed [] k = []"
  by (simp add: listed_def Map_get_def)

lemma part0_active_map_keys:
  "distinct (map fst (part0_active_map q subs))"
  unfolding part0_active_map_def by (rule outer_fold_keys) simp

lemma part0_active_map_listed:
  assumes "distinct (map fst subs)"
  shows "set (listed (part0_active_map q subs) k) = key_region ` {e \<in> set (bucket subs k). passes q e}"
  using outer_fold_listed [of q subs "[]" k] pairs_of_bucket [OF assms, of k "passes q"]
  by (simp add: part0_active_map_def listed_Nil)

lemma part0_active_map_present:
  assumes "distinct (map fst subs)"
  shows "k \<in> fst ` set (part0_active_map q subs) \<longleftrightarrow> (\<exists>e \<in> set (bucket subs k). passes q e)"
proof -
  have "k \<in> fst ` set (part0_active_map q subs) \<longleftrightarrow> Map_has (part0_active_map q subs) k"
    by (simp add: Map_has_def map_of_eq_None_iff)
  also have "\<dots> \<longleftrightarrow> (\<exists>s e. (k, s) \<in> set subs \<and> e \<in> set s \<and> passes q e)"
    using outer_fold_present [of q subs "[]" k]
    by (simp add: part0_active_map_def) (simp add: Map_has_def)
  also have "\<dots> \<longleftrightarrow> (\<exists>e \<in> set (bucket subs k). passes q e)"
    using pairs_of_bucket [OF assms, of k "passes q"] by blast
  finally show ?thesis .
qed

lemma part0_active_map_entry:
  assumes "distinct (map fst subs)" and "(k, rs) \<in> set (part0_active_map q subs)"
  shows "distinct rs \<and> set rs = key_region ` {e \<in> set (bucket subs k). passes q e}"
proof -
  have g: "Map_get (part0_active_map q subs) k = Some rs"
    using assms(2) part0_active_map_keys [of q subs] by (simp add: Map_get_def)
  then have l: "listed (part0_active_map q subs) k = rs"
    by (simp add: listed_def)
  have "distinct (listed (part0_active_map q subs) k)"
    unfolding part0_active_map_def
    by (rule outer_fold_distinct_listed) (simp add: listed_Nil)
  with l part0_active_map_listed [OF assms(1), of q k] show ?thesis by simp
qed

lemma server_active_map_eq: "falsy q \<Longrightarrow> server_active_map subs = part0_active_map q subs"
proof -
  assume "falsy q"
  then have "part0_active_step q k = (\<lambda>e acc. active_add k (nth_opt (split_on (CHR '':'') e) 1) acc)" for k
    by (intro ext) (simp add: part0_active_step_def Let_def)
  then show ?thesis
    by (simp add: server_active_map_def part0_active_map_def)
qed

lemma checkWorkerKey_eq: "checkWorkerKey e key = (\<not> part0_unauthorized e key)"
  by (auto simp: checkWorkerKey_def part0_unauthorized_def)

subsection \<open>Keys of three pieces\<close>

lemma split_on_pieces: "p \<in> set (split_on c e) \<Longrightarrow> c \<notin> set p"
  by (induction e arbitrary: p) (auto split: if_splits list.splits)

lemma split_on_single: "split_on c e = [a] \<Longrightarrow> e = a"
  by (induction e arbitrary: a) (auto split: if_splits list.splits simp: split_on_not_Nil)

lemma split_on_head:
  "split_on c e = a # b # rest \<Longrightarrow> \<exists>e'. e = a @ c # e' \<and> split_on c e' = b # rest"
proof (induction e arbitrary: a)
  case Nil
  then show ?case by simp
next
  case (Cons x xs)
  show ?case
  proof (cases "x = c")
    case True
    with Cons.prems show ?thesis by auto
  next
    case False
    with Cons.prems obtain w where w: "split_on c xs = w # b # rest" and a: "a = x # w"
      by (auto split: list.splits)
    from Cons.IH [OF w] obtain e' where "xs = w @ c # e'" "split_on c e' = b # rest" by blast
    with a show ?thesis by auto
  qed
qed

lemma three_pieces:
  assumes "length (split_on (CHR '':'') e) = 3"
  shows "\<exists>uid r s. e = subKey uid r s \<and> CHR '':'' \<notin> set uid \<and> CHR '':'' \<notin> set r
           \<and> CHR '':'' \<notin> set s"
proof -
  from assms obtain a b s where sp: "split_on (CHR '':'') e = [a, b, s]"
    by (auto simp: length_Suc_conv numeral_3_eq_3)
  from split_on_head [OF sp] obtain e1 where e1: "e = a @ CHR '':'' # e1"
    and s1: "split_on (CHR '':'') e1 = [b, s]" by blast
  from split_on_head [OF s1] obtain e2 where e2: "e1 = b @ CHR '':'' # e2"
    and s2: "split_on (CHR '':'') e2 = [s]" by blast
  from split_on_single [OF s2] have "e2 = s" .
  with e1 e2 have "e = subKey a b s" by (simp add: subKey_def)
  moreover have "CHR '':'' \<notin> set a" "CHR '':'' \<notin> set b" "CHR '':'' \<notin> set s"
    using split_on_pieces [of _ "CHR '':''" e] sp by simp_all
  ultimately show ?thesis by blast
qed

lemma key_pieces_subKey:
  assumes "CHR '':'' \<notin> set uid" and "CHR '':'' \<notin> set r" and "CHR '':'' \<notin> set s"
  shows "key_region (subKey uid r s) = Some r" and "key_source (subKey uid r s) = Some s"
  by (simp_all add: key_region_def key_source_def split_subKey [OF assms] numeral_2_eq_2)

lemma three_part_keys_bucket:
  assumes "three_part_keys subs" and "e \<in> set (bucket subs k)"
  shows "length (split_on (CHR '':'') e) = 3"
proof -
  from assms(2) obtain s where "Map_get subs k = Some s" "e \<in> set s"
    by (cases "Map_get subs k") (simp_all add: bucket_def)
  then have "(k, s) \<in> set subs" by (simp add: Map_get_def map_of_SomeD)
  with assms(1) \<open>e \<in> set s\<close> show ?thesis
    by (auto simp: three_part_keys_def list_all_iff)
qed

text \<open>
  C9, as amended. Let every key of the index split into exactly three pieces (a user id,
  a region and a source, none containing \<open>:\<close>), and let the worker be admitted. The second
  file's query returns one record per skin that has a subscription passing the source filter
  (every subscription when no filter or an empty one is given), and the record lists, without
  repetition, exactly the regions of the subscriptions of that skin that pass the filter.
  Without a filter, server.js returns the same records.
\<close>

theorem active_skins_regions:
  assumes keys: "distinct (map fst (skinSubscriptions d))"
    and three: "three_part_keys (skinSubscriptions d)"
    and auth: "checkWorkerKey e key"
  shows "\<exists>skins.
           part0_get_active_skins e key q d
             = Inr (if falsy q then ''all'' else js_str q, length skins, skins)
         \<and> (falsy q \<longrightarrow> server_get_active_skins e key q d = Inr (length skins, skins))
         \<and> distinct (map fst skins)
         \<and> (\<forall>k. k \<in> fst ` set skins \<longleftrightarrow>
                (\<exists>uid r s. subKey uid r s \<in> set (bucket (skinSubscriptions d) k)
                    \<and> CHR '':'' \<notin> set uid \<and> CHR '':'' \<notin> set r \<and> CHR '':'' \<notin> set s
                    \<and> (falsy q \<or> q = Some s)))
         \<and> (\<forall>k rs. (k, rs) \<in> set skins \<longrightarrow>
                distinct rs
              \<and> (\<forall>x. x \<in> set rs \<longleftrightarrow>
                    (\<exists>uid r s. x = Some r
                        \<and> subKey uid r s \<in> set (bucket (skinSubscriptions d) k)
                        \<and> CHR '':'' \<notin> set uid \<and> CHR '':'' \<notin> set r \<and> CHR '':'' \<notin> set s
                        \<and> (falsy q \<or> q = Some s))))"
proof -
  let ?subs = "skinSubscriptions d"
  let ?skins = "part0_active_map q ?subs"
  let ?sub = "\<lambda>k x. \<exists>uid r s. x = Some r \<and> subKey uid r s \<in> set (bucket ?subs k)
                 \<and> CHR '':'' \<notin> set uid \<and> CHR '':'' \<notin> set r \<and> CHR '':'' \<notin> set s
                 \<and> (falsy q \<or> q = Some s)"
  have conv: "(\<exists>e \<in> set (bucket ?subs k). passes q e \<and> key_region e = x) \<longleftrightarrow> ?sub k x" for k x
  proof
    assume "\<exists>e \<in> set (bucket ?subs k). passes q e \<and> key_region e = x"
    then obtain e0 where e0: "e0 \<in> set (bucket ?subs k)" "passes q e0" "key_region e0 = x" by blast
    from three_pieces [OF three_part_keys_bucket [OF three e0(1)]]
    obtain uid r s where u: "e0 = subKey uid r s" "CHR '':'' \<notin> set uid" "CHR '':'' \<notin> set r"
      "CHR '':'' \<notin> set s" by blast
    from key_pieces_subKey [OF u(2,3,4)] e0(2,3) u(1)
    have "x = Some r" "falsy q \<or> q = Some s" by (auto simp: passes_def)
    with e0(1) u show "?sub k x"
      by (intro exI [of _ uid] exI [of _ r] exI [of _ s]) simp
  next
    assume "?sub k x"
    then obtain uid r s where u: "x = Some r" "subKey uid r s \<in> set (bucket ?subs k)"
      "CHR '':'' \<notin> set uid" "CHR '':'' \<notin> set r" "CHR '':'' \<notin> set s" "falsy q \<or> q = Some s"
      by blast
    from key_pieces_subKey [OF u(3,4,5)] u(1,6)
    have "passes q (subKey uid r s) \<and> key_region (subKey uid r s) = x" by (auto simp: passes_def)
    with u(2) show "\<exists>e \<in> set (bucket ?subs k). passes q e \<and> key_region e = x"
      by (rule rev_bexI)
  qed
  have a: "part0_get_active_skins e key q d
             = Inr (if falsy q then ''all'' else js_str q, length ?skins, ?skins)"
    using auth by (simp add: part0_get_active_skins_def checkWorkerKey_eq Let_def)
  have b: "falsy q \<longrightarrow> server_get_active_skins e key q d = Inr (length ?skins, ?skins)"
    using auth by (simp add: server_get_active_skins_def Let_def server_active_map_eq)
  have c: "distinct (map fst ?skins)" by (rule part0_active_map_keys)
  have d: "k \<in> fst ` set ?skins \<longleftrightarrow>
             (\<exists>uid r s. subKey uid r s \<in> set (bucket ?subs k)
                 \<and> CHR '':'' \<notin> set uid \<and> CHR '':'' \<notin> set r \<and> CHR '':'' \<notin> set s
                 \<and> (falsy q \<or> q = Some s))" for k
  proof -
    have "(\<exists>e \<in> set (bucket ?subs k). passes q e) \<longleftrightarrow>
             (\<exists>uid r s. subKey uid r s \<in> set (bucket ?subs k)
                 \<and> CHR '':'' \<notin> set uid \<and> CHR '':'' \<notin> set r \<and> CHR '':'' \<notin> set s
                 \<and> (falsy q \<or> q = Some s))"
    proof
      assume "\<exists>e \<in> set (bucket ?subs k). passes q e"
      then obtain e0 where e0: "e0 \<in> set (bucket ?subs k)" "passes q e0" by blast
      from three_pieces [OF three_part_keys_bucket [OF three e0(1)]]
      obtain uid r s where u: "e0 = subKey uid r s" "CHR '':'' \<notin> set uid" "CHR '':'' \<notin> set r"
        "CHR '':'' \<notin> set s" by blast
      from key_pieces_subKey [OF u(2,3,4)] e0(2) u(1)
      have "falsy q \<or> q = Some s" by (auto simp: passes_def)
      with e0(1) u show "\<exists>uid r s. subKey uid r s \<in> set (bucket ?subs k)
                 \<and> CHR '':'' \<notin> set uid \<and> CHR '':'' \<notin> set r \<and> CHR '':'' \<notin> set s
                 \<and> (falsy q \<or> q = Some s)"
        by (intro exI [of _ uid] exI [of _ r] exI [of _ s]) simp
    next
      assume "\<exists>uid r s. subKey uid r s \<in> set (bucket ?subs k)
                 \<and> CHR '':'' \<notin> set uid \<and> CHR '':'' \<notin> set r \<and> CHR '':'' \<notin> set s
                 \<and> (falsy q \<or> q = Some s)"
      then obtain uid r s where u: "subKey uid r s \<in> set (bucket ?subs k)"
        "CHR '':'' \<notin> set uid" "CHR '':'' \<notin> set r" "CHR '':'' \<notin> set s" "falsy q \<or> q = Some s"
        by blast
      from key_pieces_subKey [OF u(2,3,4)] u(5)
      have "passes q (subKey uid r s)" by (auto simp: passes_def)
      with u(1) show "\<exists>e \<in> set (bucket ?subs k). passes q e" by (rule rev_bexI)
    qed
    with part0_active_map_present [OF keys, of k q] show ?thesis by simp
  qed
  have f: "distinct rs \<and> (\<forall>x. x \<in> set rs \<longleftrightarrow> ?sub k x)" if "(k, rs) \<in> set ?skins" for k rs
  proof -
    from part0_active_map_entry [OF keys that]
    have dr: "distinct rs" and sr: "set rs = key_region ` {e \<in> set (bucket ?subs k). passes q e}"
      by simp_all
    have xs: "\<forall>x. x \<in> set rs \<longleftrightarrow> ?sub k x"
    proof (intro allI)
      fix x
      have "x \<in> set rs \<longleftrightarrow> (\<exists>e \<in> set (bucket ?subs k). passes q e \<and> key_region e = x)"
        unfolding sr by blast
      then show "x \<in> set rs \<longleftrightarrow> ?sub k x" using conv by simp
    qed
    from dr xs show ?thesis by (rule conjI)
  qed
  have d': "\<forall>k. k \<in> fst ` set ?skins \<longleftrightarrow>
             (\<exists>uid r s. subKey uid r s \<in> set (bucket ?subs k)
                 \<and> CHR '':'' \<notin> set uid \<and> CHR '':'' \<notin> set r \<and> CHR '':'' \<notin> set s
                 \<and> (falsy q \<or> q = Some s))"
    by (intro allI) (rule d)
  have f': "\<forall>k rs. (k, rs) \<in> set ?skins \<longrightarrow> distinct rs \<and> (\<forall>x. x \<in> set rs \<longleftrightarrow> ?sub k x)"
    by (intro allI impI) (rule f)
  show ?thesis
    by (rule exI [of _ ?skins]) (intro conjI a b c d' f')
qed



lemmas eval_defs = part0_get_active_skins_def server_get_active_skins_def part0_active_map_def
  server_active_map_def part0_active_step_def active_add_def Map_has_def Map_get_def Set_add_def
  part0_unauthorized_def checkWorkerKey_def dev_env_def demo_db_def demo_user_def demo_item_def
  falsy_def js_str_def Let_def numeral_2_eq_2

theorem active_skins_regions_witness:
  "distinct (map fst (skinSubscriptions demo_db)) \<and> three_part_keys (skinSubscriptions demo_db)
   \<and> checkWorkerKey dev_env None
   \<and> part0_get_active_skins dev_env None (Some ''store'') demo_db
       = Inr (''store'', 1, [(Some ''prime-vandal'', [Some ''TR''])])
   \<and> (\<exists>skins.
           part0_get_active_skins dev_env None (Some ''store'') demo_db
             = Inr (if falsy (Some ''store'') then ''all'' else js_str (Some ''store''),
                    length skins, skins)
         \<and> (falsy (Some ''store'') \<longrightarrow>
               server_get_active_skins dev_env None (Some ''store'') demo_db
                 = Inr (length skins, skins))
         \<and> distinct (map fst skins)
         \<and> (\<forall>k. k \<in> fst ` set skins \<longleftrightarrow>
                (\<exists>uid r s. subKey uid r s \<in> set (bucket (skinSubscriptions demo_db) k)
                    \<and> CHR '':'' \<notin> set uid \<and> CHR '':'' \<notin> set r \<and> CHR '':'' \<notin> set s
                    \<and> (falsy (Some ''store'') \<or> Some ''store'' = Some s)))
         \<and> (\<forall>k rs. (k, rs) \<in> set skins \<longrightarrow>
                distinct rs
              \<and> (\<forall>x. x \<in> set rs \<longleftrightarrow>
                    (\<exists>uid r s. x = Some r
                        \<and> subKey uid r s \<in> set (bucket (skinSubscriptions demo_db) k)
                        \<and> CHR '':'' \<notin> set uid \<and> CHR '':'' \<notin> set r \<and> CHR '':'' \<notin> set s
                        \<and> (falsy (Some ''store'') \<or> Some ''store'' = Some s)))))"
proof -
  have h1: "distinct (map fst (skinSubscriptions demo_db))" by (simp add: demo_db_def)
  have h2: "three_part_keys (skinSubscriptions demo_db)"
    by (simp add: three_part_keys_def demo_db_def)
  have h3: "checkWorkerKey dev_env None" by (simp add: eval_defs)
  have v: "part0_get_active_skins dev_env None (Some ''store'') demo_db
       = Inr (''store'', 1, [(Some ''prime-vandal'', [Some ''TR''])])"
    by (simp add: eval_defs)
  note c = active_skins_regions [OF h1 h2 h3, of "Some ''store''"]
  show ?thesis
    by (intro conjI h1 h2 h3 v c)
qed


text \<open>
  C9, as stated, fails. The only subscriber of skin \<open>k\<close> is user \<open>a:b\<close>, in region
  \<open>EU\<close> with source \<open>store\<close>: both files report region \<open>b\<close> for \<open>k\<close>, and the
  second file, filtering on \<open>store\<close>, reports nothing. And server.js does not read the
  filter: asked for \<open>night\<close>, it reports a skin whose only subscription is a \<open>store\<close>
  one.
\<close>

theorem active_skins_regions_counterexample:
  "Map_get (wishlist (fst (part0_post_wishlist ''a:b'' (Some ''k'') None None ''t1'' empty_db))) ''a:b''
     = Some \<lparr>region = ''EU'',
             items = [\<lparr>skinId = Some ''k'', skinName = ''Unknown Skin'', source = ''store'',
                       addedAt = ''t1''\<rparr>],
             createdAt = ''t1'', updatedAt = ''t1''\<rparr>
   \<and> part0_get_active_skins dev_env None None
        (fst (part0_post_wishlist ''a:b'' (Some ''k'') None None ''t1'' empty_db))
       = Inr (''all'', 1, [(Some ''k'', [Some ''b''])])
   \<and> part0_get_active_skins dev_env None (Some ''store'')
        (fst (part0_post_wishlist ''a:b'' (Some ''k'') None None ''t1'' empty_db))
       = Inr (''store'', 0, [])
   \<and> server_get_active_skins dev_env None None
        (fst (server_post_wishlist ''a:b'' (Some ''k'') None None ''t1'' empty_db))
       = Inr (1, [(Some ''k'', [Some ''b''])])
   \<and> server_get_active_skins dev_env None (Some ''night'') demo_db
       = Inr (1, [(Some ''prime-vandal'', [Some ''TR''])])"
proof -
  let ?u = "\<lambda>n. \<lparr>region = ''EU'',
                  items = [\<lparr>skinId = Some ''k'', skinName = n, source = ''store'',
                            addedAt = ''t1''\<rparr>],
                  createdAt = ''t1'', updatedAt = ''t1''\<rparr>"
  let ?db = "\<lambda>n. \<lparr>wishlist = [(''a:b'', ?u n)],
                   skinSubscriptions = [(Some ''k'', [''a:b:EU:store''])]\<rparr>"
  have p: "fst (part0_post_wishlist ''a:b'' (Some ''k'') None None ''t1'' empty_db)
             = ?db ''Unknown Skin''"
    by code_simp
  have s: "fst (server_post_wishlist ''a:b'' (Some ''k'') None None ''t1'' empty_db)
             = ?db ''Unknown''"
    by code_simp
  have c0: "Map_get (wishlist (?db ''Unknown Skin'')) ''a:b'' = Some (?u ''Unknown Skin'')"
    by (simp add: Map_get_def)
  have c1: "part0_get_active_skins dev_env None None (?db ''Unknown Skin'')
       = Inr (''all'', 1, [(Some ''k'', [Some ''b''])])"
    by (simp add: eval_defs)
  have c2: "part0_get_active_skins dev_env None (Some ''store'') (?db ''Unknown Skin'')
       = Inr (''store'', 0, [])"
    by (simp add: eval_defs)
  have c3: "server_get_active_skins dev_env None None (?db ''Unknown'')
       = Inr (1, [(Some ''k'', [Some ''b''])])"
    by (simp add: eval_defs)
  have c4: "server_get_active_skins dev_env None (Some ''night'') demo_db
       = Inr (1, [(Some ''prime-vandal'', [Some ''TR''])])"
    by (simp add: eval_defs)
  show ?thesis
    unfolding p s by (intro conjI c0 c1 c2 c3 c4)
qed

section \<open>The index mirrors the wishlists\<close>

subsection \<open>Keys determine their user\<close>

lemma subKey_inj:
  assumes "CHR '':'' \<notin> set r" "CHR '':'' \<notin> set s" "CHR '':'' \<notin> set r'" "CHR '':'' \<notin> set s'"
    and eq: "subKey uid r s = subKey uid' r' s'"
  shows "uid = uid' \<and> r = r' \<and> s = s'"
proof -
  from eq have "rev (subKey uid r s) = rev (subKey uid' r' s')" by simp
  then have e: "rev s @ CHR '':'' # (rev r @ CHR '':'' # rev uid)
              = rev s' @ CHR '':'' # (rev r' @ CHR '':'' # rev uid')"
    by (simp add: subKey_def)
  have cs: "CHR '':'' \<notin> set (rev s)" "CHR '':'' \<notin> set (rev s')"
    and cr: "CHR '':'' \<notin> set (rev r)" "CHR '':'' \<notin> set (rev r')"
    using assms(1-4) by simp_all
  from append_sep_cancel [OF cs e]
  have 1: "rev s = rev s'" and e2: "rev r @ CHR '':'' # rev uid = rev r' @ CHR '':'' # rev uid'"
    by simp_all
  from append_sep_cancel [OF cr e2] have 2: "rev r = rev r'" and 3: "rev uid = rev uid'"
    by simp_all
  from 1 2 3 show ?thesis by simp
qed

lemma subKey_same_prefix: "subKey uid r s = subKey uid r s' \<Longrightarrow> s = s'"
  by (simp add: subKey_def)

subsection \<open>The keys the wishlists call for\<close>

lemma set_live_keys:
  "set (live_keys d k) = (\<Union>p \<in> set (wishlist d). user_keys (fst p) (snd p) k)"
  by (auto simp: live_keys_def user_keys_def)

lemma filter_Map_set_other:
  "filter (\<lambda>p. fst p \<noteq> k) (Map_set k v m) = filter (\<lambda>p. fst p \<noteq> k) m"
  by (induction m) simp_all

lemma set_Map_set_other: "{p \<in> set (Map_set k v m). fst p \<noteq> k} = {p \<in> set m. fst p \<noteq> k}"
  using arg_cong [OF filter_Map_set_other [of k v m], of set] by simp

lemma set_Map_set_distinct:
  "distinct (map fst m) \<Longrightarrow> set (Map_set k v m) = insert (k, v) {p \<in> set m. fst p \<noteq> k}"
proof (induction m)
  case Nil
  show ?case by simp
next
  case (Cons p m)
  show ?case
  proof (cases "fst p = k")
    case True
    with Cons.prems have "k \<notin> fst ` set m" by simp
    then have "\<And>q. q \<in> set m \<Longrightarrow> fst q \<noteq> k" by (metis imageI)
    then have "{q \<in> set m. fst q \<noteq> k} = set m" by blast
    moreover have "{q \<in> set (p # m). fst q \<noteq> k} = {q \<in> set m. fst q \<noteq> k}"
      using True by auto
    ultimately show ?thesis using True by simp
  next
    case False
    then have "{q \<in> set (p # m). fst q \<noteq> k} = insert p {q \<in> set m. fst q \<noteq> k}"
      by auto
    with False Cons show ?thesis by auto
  qed
qed

lemma others_keys_Map_set: "others_keys (Map_set uid u wl) uid k = others_keys wl uid k"
  by (simp add: others_keys_def set_Map_set_other)

lemma live_keys_Map_set:
  assumes "distinct (map fst (wishlist d))"
  shows "set (live_keys \<lparr>wishlist = Map_set uid u (wishlist d), skinSubscriptions = sb\<rparr> k)
           = user_keys uid u k \<union> others_keys (wishlist d) uid k"
  by (simp add: set_live_keys set_Map_set_distinct [OF assms] others_keys_def)

lemma live_keys_known:
  assumes "distinct (map fst (wishlist d))" and "Map_get (wishlist d) uid = Some u"
  shows "set (live_keys d k) = user_keys uid u k \<union> others_keys (wishlist d) uid k"
proof -
  have "Map_set uid u (wishlist d) = wishlist d" using assms(2) by (rule Map_set_same)
  with live_keys_Map_set [OF assms(1), of uid u "skinSubscriptions d" k] show ?thesis
    by (simp add: set_live_keys)
qed

lemma live_keys_unknown:
  assumes "Map_get (wishlist d) uid = None"
  shows "set (live_keys d k) = others_keys (wishlist d) uid k"
proof -
  have "uid \<notin> fst ` set (wishlist d)"
    using assms by (simp add: Map_get_def map_of_eq_None_iff)
  then have "{p \<in> set (wishlist d). fst p \<noteq> uid} = set (wishlist d)" by auto
  then show ?thesis by (simp add: set_live_keys others_keys_def)
qed

lemma key_not_others:
  assumes "regions_valid d" and "sources_plain d"
    and "CHR '':'' \<notin> set r" and "CHR '':'' \<notin> set s"
  shows "subKey uid r s \<notin> others_keys (wishlist d) uid k"
proof
  assume "subKey uid r s \<in> others_keys (wishlist d) uid k"
  then obtain uid' u' i where m: "(uid', u') \<in> set (wishlist d)" "uid' \<noteq> uid"
    "i \<in> set (items u')" "subKey uid r s = subKey uid' (region u') (source i)"
    by (auto simp: others_keys_def user_keys_def)
  have "region u' \<in> set regions"
    using assms(1) m(1) by (auto simp: regions_valid_def list_all_iff)
  then have r': "CHR '':'' \<notin> set (region u')" by (rule regions_no_sep)
  have s': "CHR '':'' \<notin> set (source i)"
    using assms(2) m(1,3) by (auto simp: sources_plain_def list_all_iff)
  from subKey_inj [OF assms(3,4) r' s' m(4)] m(2) show False by simp
qed


subsection \<open>The mirror as an equation of sets\<close>

lemma sets_ok_bucket: "sets_ok subs \<Longrightarrow> distinct (bucket subs k)"
proof (cases "Map_get subs k")
  case None
  then show ?thesis by (simp add: bucket_def)
next
  case (Some s)
  assume "sets_ok subs"
  moreover from Some have "(k, s) \<in> set subs" by (simp add: Map_get_def map_of_SomeD)
  ultimately have "distinct s" by (auto simp: sets_ok_def list_all_iff)
  with Some show ?thesis by (simp add: bucket_def)
qed

lemma mirror_forward:
  assumes "sets_ok (skinSubscriptions d)"
  shows "list_all (\<lambda>(uid, u). list_all (\<lambda>i.
          count_list (bucket (skinSubscriptions d) (skinId i)) (subKey uid (region u) (source i)) = 1)
        (items u)) (wishlist d)
     \<longleftrightarrow> (\<forall>k. set (live_keys d k) \<subseteq> set (bucket (skinSubscriptions d) k))"
    (is "?L \<longleftrightarrow> ?R")
proof -
  have c: "count_list (bucket (skinSubscriptions d) k) x = 1 \<longleftrightarrow> x \<in> set (bucket (skinSubscriptions d) k)"
    for k x
    using sets_ok_bucket [OF assms, of k] by (simp add: count_list_distinct)
  have "?L \<longleftrightarrow> (\<forall>p \<in> set (wishlist d). \<forall>i \<in> set (items (snd p)).
            subKey (fst p) (region (snd p)) (source i) \<in> set (bucket (skinSubscriptions d) (skinId i)))"
    using c by (simp add: list_all_iff case_prod_unfold)
  also have "\<dots> \<longleftrightarrow> ?R"
  proof
    assume h: "\<forall>p \<in> set (wishlist d). \<forall>i \<in> set (items (snd p)).
            subKey (fst p) (region (snd p)) (source i) \<in> set (bucket (skinSubscriptions d) (skinId i))"
    show ?R
    proof (intro allI subsetI)
      fix k x assume "x \<in> set (live_keys d k)"
      then obtain p i where "p \<in> set (wishlist d)" "i \<in> set (items (snd p))" "skinId i = k"
        "x = subKey (fst p) (region (snd p)) (source i)"
        by (auto simp: set_live_keys user_keys_def)
      with h show "x \<in> set (bucket (skinSubscriptions d) k)" by blast
    qed
  next
    assume r: ?R
    show "\<forall>p \<in> set (wishlist d). \<forall>i \<in> set (items (snd p)).
            subKey (fst p) (region (snd p)) (source i) \<in> set (bucket (skinSubscriptions d) (skinId i))"
    proof (intro ballI)
      fix p i assume "p \<in> set (wishlist d)" "i \<in> set (items (snd p))"
      then have "subKey (fst p) (region (snd p)) (source i) \<in> set (live_keys d (skinId i))"
        by (auto simp: set_live_keys user_keys_def)
      with r show "subKey (fst p) (region (snd p)) (source i)
                     \<in> set (bucket (skinSubscriptions d) (skinId i))" by blast
    qed
  qed
  finally show ?thesis .
qed

lemma mirror_backward:
  assumes "sets_ok (skinSubscriptions d)"
  shows "list_all (\<lambda>(k, s). list_all (\<lambda>e. e \<in> set (live_keys d k)) s) (skinSubscriptions d)
     \<longleftrightarrow> (\<forall>k. set (bucket (skinSubscriptions d) k) \<subseteq> set (live_keys d k))"
    (is "?L \<longleftrightarrow> ?R")
proof -
  have dk: "distinct (map fst (skinSubscriptions d))" using assms by (simp add: sets_ok_def)
  have m: "(k, s) \<in> set (skinSubscriptions d) \<longleftrightarrow> Map_get (skinSubscriptions d) k = Some s" for k s
    using dk by (simp add: Map_get_def)
  show ?thesis
  proof
    assume l: ?L
    show ?R
    proof (intro allI subsetI)
      fix k x assume x: "x \<in> set (bucket (skinSubscriptions d) k)"
      then obtain s where "Map_get (skinSubscriptions d) k = Some s" "x \<in> set s"
        by (cases "Map_get (skinSubscriptions d) k") (simp_all add: bucket_def)
      with m have "(k, s) \<in> set (skinSubscriptions d)" by simp
      with l \<open>x \<in> set s\<close> show "x \<in> set (live_keys d k)"
        by (auto simp: list_all_iff)
    qed
  next
    assume r: ?R
    have "e \<in> set (live_keys d k)" if "(k, s) \<in> set (skinSubscriptions d)" "e \<in> set s" for k s e
    proof -
      from that(1) m have "bucket (skinSubscriptions d) k = s" by (simp add: bucket_def)
      with r that(2) show ?thesis by blast
    qed
    then show ?L by (auto simp: list_all_iff)
  qed
qed

lemma index_mirrors_iff:
  assumes "sets_ok (skinSubscriptions d)"
  shows "index_mirrors d \<longleftrightarrow> (\<forall>k. set (bucket (skinSubscriptions d) k) = set (live_keys d k))"
  unfolding index_mirrors_def mirror_forward [OF assms] mirror_backward [OF assms] by blast


subsection \<open>Well-formed sets\<close>

lemma sets_ok_Map_set: "sets_ok subs \<Longrightarrow> distinct s \<Longrightarrow> sets_ok (Map_set k s subs)"
  using set_Map_set_subset [of k s subs]
  by (auto simp: sets_ok_def distinct_Map_set list_all_iff)

lemma sets_ok_Map_delete: "sets_ok subs \<Longrightarrow> sets_ok (Map_delete k subs)"
proof -
  assume ok: "sets_ok subs"
  then have "distinct (map fst (Map_delete k subs))"
    by (simp add: sets_ok_def distinct_Map_delete)
  moreover have "list_all (\<lambda>(k, s). distinct s) (Map_delete k subs)"
    using ok by (auto simp: sets_ok_def list_all_iff Map_delete_def)
  ultimately show ?thesis by (simp add: sets_ok_def)
qed

lemma sets_ok_subs_insert: "sets_ok subs \<Longrightarrow> sets_ok (subs_insert k e subs)"
  by (simp add: subs_insert_def Let_def sets_ok_Map_set distinct_Set_add sets_ok_bucket)

lemma sets_ok_subs_remove: "sets_ok subs \<Longrightarrow> sets_ok (subs_remove k e subs)"
proof (cases "Map_get subs k")
  case None
  assume "sets_ok subs"
  with None show ?thesis by (simp add: subs_remove_def)
next
  case (Some s)
  assume ok: "sets_ok subs"
  from sets_ok_bucket [OF ok, of k] Some have "distinct s" by (simp add: bucket_def)
  then have "sets_ok (Map_set k (Set_delete e s) subs)"
    using ok by (simp add: sets_ok_Map_set distinct_Set_delete)
  then have "sets_ok (Map_delete k (Map_set k (Set_delete e s) subs))"
    and "sets_ok (Map_set k (Set_delete e s) subs)"
    by (simp_all add: sets_ok_Map_delete)
  with Some show ?thesis
    by (auto simp: subs_remove_def Let_def)
qed

lemma sets_ok_server_relocate: "sets_ok subs \<Longrightarrow> sets_ok (server_relocate uid old new i subs)"
proof (cases "Map_get subs (skinId i)")
  case None
  assume "sets_ok subs"
  with None show ?thesis by (simp add: server_relocate_def)
next
  case (Some s)
  assume ok: "sets_ok subs"
  from sets_ok_bucket [OF ok, of "skinId i"] Some have "distinct s" by (simp add: bucket_def)
  with ok Some show ?thesis
    by (simp add: server_relocate_def sets_ok_Map_set distinct_Set_add distinct_Set_delete)
qed

lemma sets_ok_part0_relocate: "sets_ok subs \<Longrightarrow> sets_ok (part0_relocate uid old new i subs)"
proof (cases "Map_get subs (skinId i)")
  case None
  assume "sets_ok subs"
  with None show ?thesis by (simp add: part0_relocate_def sets_ok_subs_insert)
next
  case (Some s)
  assume ok: "sets_ok subs"
  from sets_ok_bucket [OF ok, of "skinId i"] Some have "distinct s" by (simp add: bucket_def)
  with ok Some show ?thesis
    by (simp add: part0_relocate_def sets_ok_subs_insert sets_ok_Map_set distinct_Set_delete)
qed

lemma sets_ok_fold_server_relocate:
  "sets_ok subs \<Longrightarrow> sets_ok (fold (server_relocate uid old new) xs subs)"
proof (induction xs arbitrary: subs)
  case Nil
  then show ?case by simp
next
  case (Cons x xs)
  from Cons.prems have "sets_ok (server_relocate uid old new x subs)"
    by (rule sets_ok_server_relocate)
  then show ?case by (simp add: Cons.IH)
qed

lemma sets_ok_fold_part0_relocate:
  "sets_ok subs \<Longrightarrow> sets_ok (fold (part0_relocate uid old new) xs subs)"
proof (induction xs arbitrary: subs)
  case Nil
  then show ?case by simp
next
  case (Cons x xs)
  from Cons.prems have "sets_ok (part0_relocate uid old new x subs)"
    by (rule sets_ok_part0_relocate)
  then show ?case by (simp add: Cons.IH)
qed

subsection \<open>Replacing one user's record\<close>

lemma regions_valid_Map_set:
  assumes "regions_valid d" and "region u \<in> set regions"
  shows "regions_valid \<lparr>wishlist = Map_set uid u (wishlist d), skinSubscriptions = sb\<rparr>"
  using assms set_Map_set_subset [of uid u "wishlist d"]
  by (fastforce simp: regions_valid_def list_all_iff)

lemma sources_plain_Map_set:
  assumes "sources_plain d" and "\<forall>i \<in> set (items u). CHR '':'' \<notin> set (source i)"
  shows "sources_plain \<lparr>wishlist = Map_set uid u (wishlist d), skinSubscriptions = sb\<rparr>"
  using assms set_Map_set_subset [of uid u "wishlist d"]
  by (fastforce simp: sources_plain_def list_all_iff)

lemma store_inv_update:
  assumes inv: "store_inv d"
    and ok: "sets_ok sb"
    and reg: "region u \<in> set regions"
    and src: "\<forall>i \<in> set (items u). CHR '':'' \<notin> set (source i)"
    and eq: "\<And>k. set (bucket sb k) = user_keys uid u k \<union> others_keys (wishlist d) uid k"
  shows "store_inv \<lparr>wishlist = Map_set uid u (wishlist d), skinSubscriptions = sb\<rparr>"
proof -
  let ?d' = "\<lparr>wishlist = Map_set uid u (wishlist d), skinSubscriptions = sb\<rparr>"
  from inv have dw: "distinct (map fst (wishlist d))" and rv: "regions_valid d"
    and sp: "sources_plain d"
    by (simp_all add: store_inv_def)
  have 1: "distinct (map fst (wishlist ?d'))" using dw by (simp add: distinct_Map_set)
  have 2: "sets_ok (skinSubscriptions ?d')" using ok by simp
  have 3: "regions_valid ?d'" using rv reg by (rule regions_valid_Map_set)
  have 4: "sources_plain ?d'" using sp src by (rule sources_plain_Map_set)
  have "\<forall>k. set (bucket (skinSubscriptions ?d') k) = set (live_keys ?d' k)"
    using eq by (simp add: live_keys_Map_set [OF dw])
  then have 5: "index_mirrors ?d'"
    using index_mirrors_iff [OF 2] by simp
  from 1 2 3 4 5 show ?thesis unfolding store_inv_def by (intro conjI)
qed

lemma store_inv_known:
  assumes "store_inv d" and "Map_get (wishlist d) uid = Some u"
  shows "set (bucket (skinSubscriptions d) k) = user_keys uid u k \<union> others_keys (wishlist d) uid k"
    and "region u \<in> set regions"
    and "\<forall>i \<in> set (items u). CHR '':'' \<notin> set (source i)"
proof -
  from assms(1) have dw: "distinct (map fst (wishlist d))" and ok: "sets_ok (skinSubscriptions d)"
    and rv: "regions_valid d" and sp: "sources_plain d" and im: "index_mirrors d"
    by (simp_all add: store_inv_def)
  from im index_mirrors_iff [OF ok] live_keys_known [OF dw assms(2)]
  show "set (bucket (skinSubscriptions d) k) = user_keys uid u k \<union> others_keys (wishlist d) uid k"
    by simp
  from assms(2) have m: "(uid, u) \<in> set (wishlist d)" by (simp add: Map_get_def map_of_SomeD)
  from rv m show "region u \<in> set regions" by (auto simp: regions_valid_def list_all_iff)
  from sp m show "\<forall>i \<in> set (items u). CHR '':'' \<notin> set (source i)"
    by (auto simp: sources_plain_def list_all_iff)
qed

lemma store_inv_unknown:
  assumes "store_inv d" and "Map_get (wishlist d) uid = None"
  shows "set (bucket (skinSubscriptions d) k) = others_keys (wishlist d) uid k"
proof -
  from assms(1) have ok: "sets_ok (skinSubscriptions d)" and im: "index_mirrors d"
    by (simp_all add: store_inv_def)
  from im index_mirrors_iff [OF ok] live_keys_unknown [OF assms(2)] show ?thesis by simp
qed

subsection \<open>The four operations keep the store well formed\<close>

lemma db_wishlist_update:
  "(d :: db)\<lparr>wishlist := w\<rparr> = \<lparr>wishlist = w, skinSubscriptions = skinSubscriptions d\<rparr>"
  by simp

lemma user_keys_no_items: "items u = [] \<Longrightarrow> user_keys uid u k = {}"
  by (simp add: user_keys_def)

lemma store_inv_new_user:
  assumes inv: "store_inv d" and fresh: "Map_get (wishlist d) uid = None"
    and reg: "r \<in> set regions"
  shows "store_inv \<lparr>wishlist = Map_set uid (new_user r now) (wishlist d),
                     skinSubscriptions = skinSubscriptions d\<rparr>"
proof (rule store_inv_update [OF inv])
  show "sets_ok (skinSubscriptions d)" using inv by (simp add: store_inv_def)
  show "region (new_user r now) \<in> set regions" using reg by (simp add: new_user_def)
  show "\<forall>i \<in> set (items (new_user r now)). CHR '':'' \<notin> set (source i)"
    by (simp add: new_user_def)
  show "set (bucket (skinSubscriptions d) k)
          = user_keys uid (new_user r now) k \<union> others_keys (wishlist d) uid k" for k
    using store_inv_unknown [OF inv fresh, of k]
    by (simp add: user_keys_no_items new_user_def)
qed

lemma register_store_inv:
  assumes "store_inv d" and "generateAnonUserId uuid \<notin> fst ` set (wishlist d)"
  shows "store_inv (fst (server_register uuid now r d))"
    and "store_inv (fst (part0_register uuid now r d))"
proof -
  have f: "Map_get (wishlist d) (generateAnonUserId uuid) = None"
    using assms(2) by (simp add: Map_get_def map_of_eq_None_iff)
  note n = store_inv_new_user [OF assms(1) f normalizeRegion_valid, of r now]
  show "store_inv (fst (server_register uuid now r d))"
    using n by (simp add: server_register_def Let_def db_wishlist_update)
  show "store_inv (fst (part0_register uuid now r d))"
    using n by (simp add: part0_register_def Let_def db_wishlist_update)
qed

lemma user_keys_append:
  assumes "items u' = items u @ [it]" and "region u' = region u"
  shows "user_keys uid u' k
           = user_keys uid u k \<union> (if skinId it = k then {subKey uid (region u) (source it)} else {})"
  using assms by (auto simp: user_keys_def)

lemma store_inv_add:
  assumes inv: "store_inv d"
    and base: "\<And>k. set (bucket (skinSubscriptions d) k)
                  = user_keys uid u0 k \<union> others_keys (wishlist d) uid k"
    and reg: "region u0 \<in> set regions"
    and src0: "\<forall>i \<in> set (items u0). CHR '':'' \<notin> set (source i)"
    and it: "CHR '':'' \<notin> set (source it)"
    and u': "items u' = items u0 @ [it]" "region u' = region u0"
  shows "store_inv \<lparr>wishlist = Map_set uid u' (wishlist d),
                     skinSubscriptions = subs_insert (skinId it) (subKey uid (region u0) (source it))
                                           (skinSubscriptions d)\<rparr>"
proof (rule store_inv_update [OF inv])
  show "sets_ok (subs_insert (skinId it) (subKey uid (region u0) (source it)) (skinSubscriptions d))"
    using inv by (simp add: store_inv_def sets_ok_subs_insert)
  show "region u' \<in> set regions" using reg u'(2) by simp
  show "\<forall>i \<in> set (items u'). CHR '':'' \<notin> set (source i)"
    using src0 it u'(1) by simp
  show "set (bucket (subs_insert (skinId it) (subKey uid (region u0) (source it))
                       (skinSubscriptions d)) k)
          = user_keys uid u' k \<union> others_keys (wishlist d) uid k" for k
    using base [of k]
    by (auto simp: bucket_subs_insert set_Set_add user_keys_append [OF u'])
qed

lemma user_keys_filter:
  assumes "items u' = filter (\<lambda>i. \<not> (skinId i = Some sid \<and> source i = src)) (items u)"
    and "region u' = region u"
  shows "user_keys uid u' k
           = user_keys uid u k - (if k = Some sid then {subKey uid (region u) src} else {})"
proof (cases "k = Some sid")
  case False
  then have "{i \<in> set (items u'). skinId i = k} = {i \<in> set (items u). skinId i = k}"
    using assms(1) by auto
  with False assms(2) show ?thesis by (simp add: user_keys_def)
next
  case True
  have a: "{i \<in> set (items u'). skinId i = k} = {i \<in> set (items u). skinId i = k \<and> source i \<noteq> src}"
    using assms(1) True by auto
  have "(\<lambda>i. subKey uid (region u) (source i)) ` {i \<in> set (items u). skinId i = k \<and> source i \<noteq> src}
      = (\<lambda>i. subKey uid (region u) (source i)) ` {i \<in> set (items u). skinId i = k}
          - {subKey uid (region u) src}"
    by (auto dest: subKey_same_prefix)
  with a True assms(2) show ?thesis by (simp add: user_keys_def)
qed

lemma store_inv_remove:
  assumes inv: "store_inv d" and known: "Map_get (wishlist d) uid = Some u"
    and src: "CHR '':'' \<notin> set src"
    and u': "items u' = filter (\<lambda>i. \<not> (skinId i = Some sid \<and> source i = src)) (items u)"
            "region u' = region u"
  shows "store_inv \<lparr>wishlist = Map_set uid u' (wishlist d),
                     skinSubscriptions = subs_remove (Some sid) (subKey uid (region u) src)
                                           (skinSubscriptions d)\<rparr>"
proof (rule store_inv_update [OF inv])
  note k = store_inv_known [OF inv known]
  from inv have rv: "regions_valid d" and sp: "sources_plain d" by (simp_all add: store_inv_def)
  have rp: "CHR '':'' \<notin> set (region u)" using k(2) by (rule regions_no_sep)
  show "sets_ok (subs_remove (Some sid) (subKey uid (region u) src) (skinSubscriptions d))"
    using inv by (simp add: store_inv_def sets_ok_subs_remove)
  show "region u' \<in> set regions" using k(2) u'(2) by simp
  show "\<forall>i \<in> set (items u'). CHR '':'' \<notin> set (source i)"
    using k(3) u'(1) by simp
  show "set (bucket (subs_remove (Some sid) (subKey uid (region u) src) (skinSubscriptions d)) k')
          = user_keys uid u' k' \<union> others_keys (wishlist d) uid k'" for k'
    using k(1) [of k'] key_not_others [OF rv sp rp src, of uid k']
    by (auto simp: bucket_subs_remove set_Set_delete user_keys_filter [OF u'])
qed


lemma user_keys_region:
  "user_keys uid (u\<lparr>region := r, updatedAt := t\<rparr>) k
     = (\<lambda>i. subKey uid r (source i)) ` {i \<in> set (items u). skinId i = k}"
  by (simp add: user_keys_def)

lemma relocated_sets:
  assumes "B = Old \<union> Others" and "Old \<inter> Others = {}"
  shows "(B - Old) \<union> New = New \<union> Others"
  using assms by blast

lemma store_inv_relocate:
  assumes inv: "store_inv d" and known: "Map_get (wishlist d) uid = Some u"
    and new: "r \<in> set regions"
    and ok: "sets_ok sb"
    and sb: "\<And>k. set (bucket sb k)
                = (set (bucket (skinSubscriptions d) k) - user_keys uid u k)
                  \<union> (\<lambda>i. subKey uid r (source i)) ` {i \<in> set (items u). skinId i = k}"
  shows "store_inv \<lparr>wishlist = Map_set uid (u\<lparr>region := r, updatedAt := now\<rparr>) (wishlist d),
                     skinSubscriptions = sb\<rparr>"
proof (rule store_inv_update [OF inv ok])
  note k = store_inv_known [OF inv known]
  from inv have rv: "regions_valid d" and sp: "sources_plain d" by (simp_all add: store_inv_def)
  have rp: "CHR '':'' \<notin> set (region u)" using k(2) by (rule regions_no_sep)
  show "region (u\<lparr>region := r, updatedAt := now\<rparr>) \<in> set regions" using new by simp
  show "\<forall>i \<in> set (items (u\<lparr>region := r, updatedAt := now\<rparr>)). CHR '':'' \<notin> set (source i)"
    using k(3) by simp
  show "set (bucket sb k')
          = user_keys uid (u\<lparr>region := r, updatedAt := now\<rparr>) k' \<union> others_keys (wishlist d) uid k'"
    for k'
  proof -
    have disj: "user_keys uid u k' \<inter> others_keys (wishlist d) uid k' = {}"
    proof -
      have "x \<notin> others_keys (wishlist d) uid k'" if "x \<in> user_keys uid u k'" for x
      proof -
        from that obtain i where "i \<in> set (items u)" "x = subKey uid (region u) (source i)"
          by (auto simp: user_keys_def)
        with k(3) key_not_others [OF rv sp rp, of "source i" uid k'] show ?thesis by simp
      qed
      then show ?thesis by blast
    qed
    from relocated_sets [OF k(1) [of k'] disj] show ?thesis
      by (simp add: sb user_keys_region)
  qed
qed

lemma part0_put_region_store_inv:
  assumes inv: "store_inv d"
  shows "store_inv (fst (part0_put_region uid r now d))"
proof (cases "Map_get (wishlist d) uid")
  case None
  then show ?thesis using inv by (simp add: part0_put_region_def)
next
  case (Some u)
  note k = store_inv_known [OF inv Some]
  have co: "CHR '':'' \<notin> set (region u)" using k(2) by (rule regions_no_sep)
  have cn: "CHR '':'' \<notin> set (normalizeRegion r)"
    using normalizeRegion_valid by (rule regions_no_sep)
  let ?sb = "fold (part0_relocate uid (region u) (normalizeRegion r)) (items u) (skinSubscriptions d)"
  have ok: "sets_ok ?sb"
    using inv by (simp add: store_inv_def sets_ok_fold_part0_relocate)
  have "store_inv \<lparr>wishlist = Map_set uid (u\<lparr>region := normalizeRegion r, updatedAt := now\<rparr>)
                                  (wishlist d),
                     skinSubscriptions = ?sb\<rparr>"
    using inv Some normalizeRegion_valid ok
  proof (rule store_inv_relocate)
    show "set (bucket ?sb k)
            = (set (bucket (skinSubscriptions d) k) - user_keys uid u k)
              \<union> (\<lambda>i. subKey uid (normalizeRegion r) (source i)) ` {i \<in> set (items u). skinId i = k}"
      for k
      by (simp add: set_bucket_fold_part0_relocate [OF co cn] user_keys_def)
  qed
  then show ?thesis by (simp add: part0_put_region_known [OF Some])
qed

lemma server_put_region_store_inv:
  assumes inv: "store_inv d"
  shows "store_inv (fst (server_put_region uid r now d))"
proof (cases "Map_get (wishlist d) uid")
  case None
  then show ?thesis using inv by (simp add: server_put_region_def)
next
  case (Some u)
  note k = store_inv_known [OF inv Some]
  have co: "CHR '':'' \<notin> set (region u)" using k(2) by (rule regions_no_sep)
  have cn: "CHR '':'' \<notin> set (normalizeRegion r)"
    using normalizeRegion_valid by (rule regions_no_sep)
  let ?sb = "fold (server_relocate uid (region u) (normalizeRegion r)) (items u) (skinSubscriptions d)"
  have ok: "sets_ok ?sb"
    using inv by (simp add: store_inv_def sets_ok_fold_server_relocate)
  have "store_inv \<lparr>wishlist = Map_set uid (u\<lparr>region := normalizeRegion r, updatedAt := now\<rparr>)
                                  (wishlist d),
                     skinSubscriptions = ?sb\<rparr>"
    using inv Some normalizeRegion_valid ok
  proof (rule store_inv_relocate)
    show "set (bucket ?sb k)
            = (set (bucket (skinSubscriptions d) k) - user_keys uid u k)
              \<union> (\<lambda>i. subKey uid (normalizeRegion r) (source i)) ` {i \<in> set (items u). skinId i = k}"
      for k
    proof (cases "Map_get (skinSubscriptions d) k")
      case (Some b)
      then have "Map_get (skinSubscriptions d) k \<noteq> None" by simp
      from set_bucket_fold_server_relocate [OF co cn this] show ?thesis
        by (simp add: user_keys_def)
    next
      case None
      then have e: "bucket (skinSubscriptions d) k = []" by (rule bucket_absent)
      from None have "Map_get ?sb k = None" by (simp add: present_fold_server_relocate)
      then have e': "bucket ?sb k = []" by (rule bucket_absent)
      from k(1) [of k] e have "user_keys uid u k = {}" by simp
      then have "{i \<in> set (items u). skinId i = k} = {}" by (simp add: user_keys_def)
      with e e' show ?thesis by simp
    qed
  qed
  then show ?thesis by (simp add: server_put_region_known [OF Some])
qed


lemma Map_set_idem: "Map_set k v (Map_set k w m) = Map_set k v m"
  by (induction m) auto

lemma store_inv_add_unknown:
  assumes inv: "store_inv d" and unknown: "Map_get (wishlist d) uid = None"
    and it: "CHR '':'' \<notin> set (source it)"
    and u': "items u' = [it]" "region u' = ''EU''"
  shows "store_inv \<lparr>wishlist = Map_set uid u' (Map_set uid (new_user ''EU'' now) (wishlist d)),
                     skinSubscriptions = subs_insert (skinId it) (subKey uid ''EU'' (source it))
                                           (skinSubscriptions d)\<rparr>"
proof -
  let ?u0 = "new_user ''EU'' now"
  have base: "set (bucket (skinSubscriptions d) k) = user_keys uid ?u0 k \<union> others_keys (wishlist d) uid k"
    for k
    using store_inv_unknown [OF inv unknown, of k] by (simp add: user_keys_no_items new_user_def)
  have "store_inv \<lparr>wishlist = Map_set uid u' (wishlist d),
                     skinSubscriptions = subs_insert (skinId it) (subKey uid (region ?u0) (source it))
                                           (skinSubscriptions d)\<rparr>"
    using inv base
  proof (rule store_inv_add)
    show "region ?u0 \<in> set regions" by (simp add: new_user_def regions_def)
    show "\<forall>i \<in> set (items ?u0). CHR '':'' \<notin> set (source i)" by (simp add: new_user_def)
    show "CHR '':'' \<notin> set (source it)" by (rule it)
    show "items u' = items ?u0 @ [it]" using u'(1) by (simp add: new_user_def)
    show "region u' = region ?u0" using u'(2) by (simp add: new_user_def)
  qed
  then show ?thesis by (simp add: Map_set_idem new_user_def)
qed

lemma part0_post_wishlist_store_inv:
  assumes inv: "store_inv d"
  shows "store_inv (fst (part0_post_wishlist uid k n s now d))"
proof -
  let ?ns = "normalizeSource s"
  let ?new = "\<lparr>skinId = k, skinName = (if falsy n then ''Unknown Skin'' else js_str n),
                 source = ?ns, addedAt = now\<rparr>"
  have ns: "CHR '':'' \<notin> set ?ns"
    using normalizeSource_valid by (rule validSources_no_sep)
  show ?thesis
  proof (cases "Map_get (wishlist d) uid")
    case None
    let ?u' = "(new_user ''EU'' now)\<lparr>items := [?new], updatedAt := now\<rparr>"
    have "store_inv \<lparr>wishlist = Map_set uid ?u' (Map_set uid (new_user ''EU'' now) (wishlist d)),
                       skinSubscriptions = subs_insert (skinId ?new) (subKey uid ''EU'' (source ?new))
                                             (skinSubscriptions d)\<rparr>"
      using inv None by (rule store_inv_add_unknown) (simp_all add: ns new_user_def)
    then show ?thesis
      using None by (simp add: part0_post_wishlist_def Let_def new_user_def)
  next
    case (Some u)
    note k = store_inv_known [OF inv Some]
    show ?thesis
    proof (cases "list_ex (\<lambda>i. skinId i = k \<and> source i = ?ns) (items u)")
      case True
      with Some inv show ?thesis by (simp add: part0_post_wishlist_def Let_def db_eta)
    next
      case False
      let ?u' = "u\<lparr>items := items u @ [?new], updatedAt := now\<rparr>"
      have "store_inv \<lparr>wishlist = Map_set uid ?u' (wishlist d),
                         skinSubscriptions = subs_insert (skinId ?new)
                           (subKey uid (region u) (source ?new)) (skinSubscriptions d)\<rparr>"
        using inv k(1) k(2) k(3) by (rule store_inv_add) (simp_all add: ns)
      with Some False show ?thesis
        by (simp add: part0_post_wishlist_def Let_def)
    qed
  qed
qed

lemma server_post_wishlist_store_inv:
  assumes inv: "store_inv d" and plain: "CHR '':'' \<notin> set (default_source s)"
  shows "store_inv (fst (server_post_wishlist uid k n s now d))"
proof (cases "falsy k")
  case True
  with inv show ?thesis by (simp add: server_post_wishlist_def)
next
  case nf: False
  let ?src = "default_source s"
  let ?new = "\<lparr>skinId = k, skinName = (if falsy n then ''Unknown'' else js_str n),
                 source = ?src, addedAt = now\<rparr>"
  show ?thesis
  proof (cases "Map_get (wishlist d) uid")
    case None
    let ?u' = "(new_user ''EU'' now)\<lparr>items := [?new]\<rparr>"
    have "store_inv \<lparr>wishlist = Map_set uid ?u' (Map_set uid (new_user ''EU'' now) (wishlist d)),
                       skinSubscriptions = subs_insert (skinId ?new) (subKey uid ''EU'' (source ?new))
                                             (skinSubscriptions d)\<rparr>"
      using inv None by (rule store_inv_add_unknown) (simp_all add: plain new_user_def)
    then show ?thesis
      using None nf by (simp add: server_post_wishlist_def Let_def new_user_def)
  next
    case (Some u)
    note k = store_inv_known [OF inv Some]
    show ?thesis
    proof (cases "list_ex (\<lambda>i. skinId i = k \<and> source i = ?src) (items u)")
      case True
      with Some inv nf show ?thesis by (simp add: server_post_wishlist_def Let_def db_eta)
    next
      case False
      let ?u' = "u\<lparr>items := items u @ [?new]\<rparr>"
      have "store_inv \<lparr>wishlist = Map_set uid ?u' (wishlist d),
                         skinSubscriptions = subs_insert (skinId ?new)
                           (subKey uid (region u) (source ?new)) (skinSubscriptions d)\<rparr>"
        using inv k(1) k(2) k(3) by (rule store_inv_add) (simp_all add: plain)
      with Some False nf show ?thesis
        by (simp add: server_post_wishlist_def Let_def)
    qed
  qed
qed

lemma part0_delete_wishlist_store_inv:
  assumes inv: "store_inv d"
  shows "store_inv (fst (part0_delete_wishlist uid sid q now d))"
proof (cases "Map_get (wishlist d) uid")
  case None
  with inv show ?thesis by (simp add: part0_delete_wishlist_def)
next
  case (Some u)
  let ?src = "default_source q"
  let ?P = "\<lambda>i. skinId i = Some sid \<and> source i = ?src"
  note k = store_inv_known [OF inv Some]
  show ?thesis
  proof (cases "list_ex ?P (items u)")
    case False
    from part0_delete_wishlist_no_match [OF Some False] inv show ?thesis by simp
  next
    case True
    then obtain i where "i \<in> set (items u)" "source i = ?src" by (auto simp: list_ex_iff)
    with k(3) have plain: "CHR '':'' \<notin> set ?src" by auto
    from True have "filter ?P (items u) \<noteq> []" by (simp add: list_ex_filter)
    then have ne: "length (filter (\<lambda>i. \<not> ?P i) (items u)) \<noteq> length (items u)"
      by (metis (mono_tags, lifting) filter_length_eq filter_filter filter_False)
    let ?u' = "u\<lparr>items := filter (\<lambda>i. \<not> ?P i) (items u), updatedAt := now\<rparr>"
    have "store_inv \<lparr>wishlist = Map_set uid ?u' (wishlist d),
                       skinSubscriptions = subs_remove (Some sid) (subKey uid (region u) ?src)
                                             (skinSubscriptions d)\<rparr>"
      using inv Some plain by (rule store_inv_remove) simp_all
    with Some ne show ?thesis
      by (simp add: part0_delete_wishlist_def Let_def)
  qed
qed

lemma server_delete_wishlist_store_inv:
  assumes inv: "store_inv d" and plain: "CHR '':'' \<notin> set (server_query_source q)"
  shows "store_inv (fst (server_delete_wishlist uid sid q d))"
proof (cases "Map_get (wishlist d) uid")
  case None
  with inv show ?thesis by (simp add: server_delete_wishlist_def)
next
  case (Some u)
  let ?src = "server_query_source q"
  let ?u' = "u\<lparr>items := filter (\<lambda>i. \<not> (skinId i = Some sid \<and> source i = ?src)) (items u)\<rparr>"
  have "store_inv \<lparr>wishlist = Map_set uid ?u' (wishlist d),
                     skinSubscriptions = subs_remove (Some sid) (subKey uid (region u) ?src)
                                           (skinSubscriptions d)\<rparr>"
    using inv Some plain by (rule store_inv_remove) simp_all
  with Some show ?thesis
    by (simp add: server_delete_wishlist_def Let_def)
qed

lemma store_inv_empty: "store_inv empty_db"
  by (simp add: store_inv_def empty_db_def sets_ok_def regions_valid_def sources_plain_def
      index_mirrors_def)


text \<open>
  Summary. From a well-formed store, every operation of the second file leaves a well-formed
  store, whose index mirrors the wishlists; registration is taken with an id that the store
  does not hold yet. The same is true of server.js as long as the sources given to its add
  and remove requests contain no separator.
\<close>

lemma part0_keeps_store_inv:
  assumes "store_inv d"
  shows "generateAnonUserId uuid \<notin> fst ` set (wishlist d)
           \<Longrightarrow> store_inv (fst (part0_register uuid now r d))"
    and "store_inv (fst (part0_put_region uid r now d))"
    and "store_inv (fst (part0_post_wishlist uid k n s now d))"
    and "store_inv (fst (part0_delete_wishlist uid sid q now d))"
  using assms
  by (simp_all add: register_store_inv part0_put_region_store_inv part0_post_wishlist_store_inv
      part0_delete_wishlist_store_inv)

lemma server_keeps_store_inv:
  assumes "store_inv d"
  shows "generateAnonUserId uuid \<notin> fst ` set (wishlist d)
           \<Longrightarrow> store_inv (fst (server_register uuid now r d))"
    and "store_inv (fst (server_put_region uid r now d))"
    and "CHR '':'' \<notin> set (default_source s)
           \<Longrightarrow> store_inv (fst (server_post_wishlist uid k n s now d))"
    and "CHR '':'' \<notin> set (server_query_source q)
           \<Longrightarrow> store_inv (fst (server_delete_wishlist uid sid q d))"
  using assms
  by (simp_all add: register_store_inv server_put_region_store_inv server_post_wishlist_store_inv
      server_delete_wishlist_store_inv)

lemma store_inv_mirrors: "store_inv d \<Longrightarrow> index_mirrors d"
  by (simp add: store_inv_def)


text \<open>
  C1. After every completed operation the reverse index is to mirror the wishlists. The
  second file keeps it so (the summary above). server.js does not: starting from the empty
  store, two users add one skin each, which leaves a well-formed store; then user \<open>a\<close>
  asks to remove skin \<open>k\<close>, which it does not hold, with source \<open>EU:store\<close>. The handler
  deletes key \<open>a:EU:EU:store\<close>, the key of user \<open>a:EU\<close>, without having found an item:
  user \<open>a:EU\<close> still holds skin \<open>k\<close> and no set holds its key.
\<close>

theorem server_index_broken:
  "store_inv clash2
   \<and> clash3 = \<lparr>wishlist = wishlist clash2, skinSubscriptions = [(Some ''z'', [''a:EU:store''])]\<rparr>
   \<and> held clash3 ''a:EU'' (Some ''k'') ''store'' = 1
   \<and> bucket (skinSubscriptions clash3) (Some ''k'') = []
   \<and> \<not> index_mirrors clash3"
  by code_simp

subsection \<open>The change of region, in full\<close>

text \<open>
  C2. Let the user be known to the store, in one of the supported regions. A change of
  region answers with the normalised region \<open>R2\<close> and records it for the user. Afterwards
  every item of the user whose key was in the set of its skin has its key with \<open>R2\<close>
  there (the second file files the key with \<open>R2\<close> for every item), and, when \<open>R2\<close>
  differs from the prior region, no item's key with the prior region remains in the set of
  its skin. Moreover a well-formed store stays well formed, so that afterwards every key of
  the index belongs to an item of a user under that user's current region: none is left
  that refers to the prior one. Both files.
\<close>

theorem set_region_relocates:
  assumes known: "Map_get (wishlist d) uid = Some u" and old: "region u \<in> set regions"
  shows "snd (server_put_region uid r now d) = Inr (normalizeRegion r)
       \<and> Map_get (wishlist (fst (server_put_region uid r now d))) uid
           = Some (u\<lparr>region := normalizeRegion r, updatedAt := now\<rparr>)
       \<and> (\<forall>i \<in> set (items u).
            subKey uid (region u) (source i) \<in> set (bucket (skinSubscriptions d) (skinId i))
            \<longrightarrow> subKey uid (normalizeRegion r) (source i)
                  \<in> set (bucket (skinSubscriptions (fst (server_put_region uid r now d))) (skinId i)))
       \<and> (\<forall>i \<in> set (items u).
            region u \<noteq> normalizeRegion r
            \<longrightarrow> subKey uid (region u) (source i)
                  \<notin> set (bucket (skinSubscriptions (fst (server_put_region uid r now d))) (skinId i)))
       \<and> snd (part0_put_region uid r now d) = Inr (normalizeRegion r)
       \<and> Map_get (wishlist (fst (part0_put_region uid r now d))) uid
           = Some (u\<lparr>region := normalizeRegion r, updatedAt := now\<rparr>)
       \<and> (\<forall>i \<in> set (items u).
            subKey uid (normalizeRegion r) (source i)
              \<in> set (bucket (skinSubscriptions (fst (part0_put_region uid r now d))) (skinId i)))
       \<and> (\<forall>i \<in> set (items u).
            region u \<noteq> normalizeRegion r
            \<longrightarrow> subKey uid (region u) (source i)
                  \<notin> set (bucket (skinSubscriptions (fst (part0_put_region uid r now d))) (skinId i)))
       \<and> (store_inv d \<longrightarrow> store_inv (fst (server_put_region uid r now d))
                           \<and> store_inv (fst (part0_put_region uid r now d)))"
proof -
  let ?new = "normalizeRegion r"
  let ?old = "region u"
  have co: "CHR '':'' \<notin> set ?old" using old by (rule regions_no_sep)
  have cn: "CHR '':'' \<notin> set ?new" using normalizeRegion_valid by (rule regions_no_sep)
  let ?S = "fold (server_relocate uid ?old ?new) (items u) (skinSubscriptions d)"
  let ?P = "fold (part0_relocate uid ?old ?new) (items u) (skinSubscriptions d)"
  have diff: "subKey uid ?old s \<noteq> subKey uid ?new s'" if "?old \<noteq> ?new" for s s'
    using subKey_same_user [OF co cn] that by blast
  have s_in: "subKey uid ?new (source i) \<in> set (bucket ?S (skinId i))"
    if "i \<in> set (items u)"
      and "subKey uid ?old (source i) \<in> set (bucket (skinSubscriptions d) (skinId i))" for i
  proof -
    have "Map_get (skinSubscriptions d) (skinId i) \<noteq> None"
      using that(2) by (cases "Map_get (skinSubscriptions d) (skinId i)") (simp_all add: bucket_def)
    from set_bucket_fold_server_relocate [OF co cn this] that(1) show ?thesis by auto
  qed
  have s_out: "subKey uid ?old (source i) \<notin> set (bucket ?S (skinId i))"
    if "i \<in> set (items u)" and "?old \<noteq> ?new" for i
  proof (cases "Map_get (skinSubscriptions d) (skinId i)")
    case None
    then have "Map_get ?S (skinId i) = None" by (simp add: present_fold_server_relocate)
    then show ?thesis by (simp add: bucket_absent)
  next
    case (Some b)
    then have "Map_get (skinSubscriptions d) (skinId i) \<noteq> None" by simp
    from set_bucket_fold_server_relocate [OF co cn this] that(1) diff [OF that(2)]
    show ?thesis by auto
  qed
  have p_in: "subKey uid ?new (source i) \<in> set (bucket ?P (skinId i))"
    if "i \<in> set (items u)" for i
    using set_bucket_fold_part0_relocate [OF co cn] that by auto
  have p_out: "subKey uid ?old (source i) \<notin> set (bucket ?P (skinId i))"
    if "i \<in> set (items u)" and "?old \<noteq> ?new" for i
    using set_bucket_fold_part0_relocate [OF co cn] that(1) diff [OF that(2)] by auto
  have keep: "store_inv d \<longrightarrow> store_inv (fst (server_put_region uid r now d))
                           \<and> store_inv (fst (part0_put_region uid r now d))"
    by (simp add: server_put_region_store_inv part0_put_region_store_inv)
  have rest: "snd (server_put_region uid r now d) = Inr ?new
       \<and> Map_get (wishlist (fst (server_put_region uid r now d))) uid
           = Some (u\<lparr>region := ?new, updatedAt := now\<rparr>)
       \<and> (\<forall>i \<in> set (items u).
            subKey uid ?old (source i) \<in> set (bucket (skinSubscriptions d) (skinId i))
            \<longrightarrow> subKey uid ?new (source i)
                  \<in> set (bucket (skinSubscriptions (fst (server_put_region uid r now d))) (skinId i)))
       \<and> (\<forall>i \<in> set (items u).
            ?old \<noteq> ?new
            \<longrightarrow> subKey uid ?old (source i)
                  \<notin> set (bucket (skinSubscriptions (fst (server_put_region uid r now d))) (skinId i)))
       \<and> snd (part0_put_region uid r now d) = Inr ?new
       \<and> Map_get (wishlist (fst (part0_put_region uid r now d))) uid
           = Some (u\<lparr>region := ?new, updatedAt := now\<rparr>)
       \<and> (\<forall>i \<in> set (items u).
            subKey uid ?new (source i)
              \<in> set (bucket (skinSubscriptions (fst (part0_put_region uid r now d))) (skinId i)))
       \<and> (\<forall>i \<in> set (items u).
            ?old \<noteq> ?new
            \<longrightarrow> subKey uid ?old (source i)
                  \<notin> set (bucket (skinSubscriptions (fst (part0_put_region uid r now d))) (skinId i)))"
    using s_in s_out p_in p_out
    by (simp add: server_put_region_known [OF known] part0_put_region_known [OF known]
        Map_get_Map_set)
  from rest keep show ?thesis by simp
qed

theorem set_region_relocates_witness:
  "Map_get (wishlist demo_db) ''anon_1'' = Some demo_user \<and> region demo_user \<in> set regions
   \<and> demo_item \<in> set (items demo_user)
   \<and> subKey ''anon_1'' (region demo_user) (source demo_item)
        \<in> set (bucket (skinSubscriptions demo_db) (skinId demo_item))
   \<and> region demo_user \<noteq> normalizeRegion (Some ''na'')
   \<and> store_inv demo_db
   \<and> index_mirrors (fst (server_put_region ''anon_1'' (Some ''na'') ''t2'' demo_db))
   \<and> index_mirrors (fst (part0_put_region ''anon_1'' (Some ''na'') ''t2'' demo_db))
   \<and> normalizeRegion (Some ''na'') = ''NA''
   \<and> subKey ''anon_1'' ''NA'' (source demo_item)
        \<in> set (bucket (skinSubscriptions (fst (server_put_region ''anon_1'' (Some ''na'') ''t2'' demo_db)))
                 (skinId demo_item))
   \<and> subKey ''anon_1'' (region demo_user) (source demo_item)
        \<notin> set (bucket (skinSubscriptions (fst (server_put_region ''anon_1'' (Some ''na'') ''t2'' demo_db)))
                 (skinId demo_item))
   \<and> subKey ''anon_1'' ''NA'' (source demo_item)
        \<in> set (bucket (skinSubscriptions (fst (part0_put_region ''anon_1'' (Some ''na'') ''t2'' demo_db)))
                 (skinId demo_item))
   \<and> subKey ''anon_1'' (region demo_user) (source demo_item)
        \<notin> set (bucket (skinSubscriptions (fst (part0_put_region ''anon_1'' (Some ''na'') ''t2'' demo_db)))
                 (skinId demo_item))"
proof -
  have h1: "Map_get (wishlist demo_db) ''anon_1'' = Some demo_user" by code_simp
  have h2: "region demo_user \<in> set regions" by code_simp
  have h3: "demo_item \<in> set (items demo_user)" by (simp add: demo_user_def)
  have h4: "subKey ''anon_1'' (region demo_user) (source demo_item)
        \<in> set (bucket (skinSubscriptions demo_db) (skinId demo_item))" by code_simp
  have h5: "region demo_user \<noteq> normalizeRegion (Some ''na'')" by code_simp
  have h6: "normalizeRegion (Some ''na'') = ''NA''" by code_simp
  have h7: "store_inv demo_db" by code_simp
  from set_region_relocates [OF h1 h2, of "Some ''na''" "''t2''"] h3 h4 h5 h7
  show ?thesis
    using h1 h2 h6 by (auto simp: store_inv_def)
qed

section \<open>Adding the same item twice, in the stores the files reach\<close>

lemma pairs_unique_Map_set:
  assumes "pairs_unique d" and "distinct (map (\<lambda>i. (skinId i, source i)) (items u))"
  shows "pairs_unique \<lparr>wishlist = Map_set uid u (wishlist d), skinSubscriptions = sb\<rparr>"
  using assms set_Map_set_subset [of uid u "wishlist d"]
  by (fastforce simp: pairs_unique_def list_all_iff)

lemma pairs_unique_known:
  assumes "pairs_unique d" and "Map_get (wishlist d) uid = Some u"
  shows "distinct (map (\<lambda>i. (skinId i, source i)) (items u))"
proof -
  from assms(2) have "(uid, u) \<in> set (wishlist d)" by (simp add: Map_get_def map_of_SomeD)
  with assms(1) show ?thesis by (auto simp: pairs_unique_def list_all_iff)
qed

lemma distinct_map_filter_le_1:
  "distinct (map f xs) \<Longrightarrow> length (filter (\<lambda>x. f x = y) xs) \<le> 1"
proof (induction xs)
  case Nil
  show ?case by simp
next
  case (Cons x xs)
  show ?case
  proof (cases "f x = y")
    case True
    with Cons.prems have "y \<notin> f ` set xs" by auto
    then have "filter (\<lambda>x. f x = y) xs = []" by (auto simp: filter_empty_conv)
    with True show ?thesis by simp
  next
    case False
    with Cons show ?thesis by simp
  qed
qed

lemma part0_register_pairs_unique:
  "pairs_unique d \<Longrightarrow> pairs_unique (fst (part0_register uuid now r d))"
  using pairs_unique_Map_set [of d "new_user (normalizeRegion r) now" "generateAnonUserId uuid"
      "skinSubscriptions d"]
  by (simp add: part0_register_def Let_def db_wishlist_update new_user_def)

lemma part0_put_region_pairs_unique:
  assumes "pairs_unique d"
  shows "pairs_unique (fst (part0_put_region uid r now d))"
proof (cases "Map_get (wishlist d) uid")
  case None
  with assms show ?thesis by (simp add: part0_put_region_def)
next
  case (Some u)
  from pairs_unique_known [OF assms Some]
  have "distinct (map (\<lambda>i. (skinId i, source i)) (items (u\<lparr>region := normalizeRegion r, updatedAt := now\<rparr>)))"
    by simp
  from pairs_unique_Map_set [OF assms this] show ?thesis
    by (simp add: part0_put_region_known [OF Some])
qed

lemma part0_post_wishlist_pairs_unique:
  assumes "pairs_unique d"
  shows "pairs_unique (fst (part0_post_wishlist uid k n s now d))"
proof -
  let ?ns = "normalizeSource s"
  let ?new = "\<lparr>skinId = k, skinName = (if falsy n then ''Unknown Skin'' else js_str n),
                 source = ?ns, addedAt = now\<rparr>"
  show ?thesis
  proof (cases "Map_get (wishlist d) uid")
    case None
    let ?u' = "(new_user ''EU'' now)\<lparr>items := [?new], updatedAt := now\<rparr>"
    have "distinct (map (\<lambda>i. (skinId i, source i)) (items ?u'))" by simp
    from pairs_unique_Map_set [OF assms this, of uid] show ?thesis
      using None by (simp add: part0_post_wishlist_def Let_def new_user_def Map_set_idem)
  next
    case (Some u)
    note du = pairs_unique_known [OF assms Some]
    show ?thesis
    proof (cases "list_ex (\<lambda>i. skinId i = k \<and> source i = ?ns) (items u)")
      case True
      with Some assms show ?thesis by (simp add: part0_post_wishlist_def Let_def db_eta)
    next
      case False
      then have "(k, ?ns) \<notin> (\<lambda>i. (skinId i, source i)) ` set (items u)"
        by (auto simp: list_ex_iff)
      with du have "distinct (map (\<lambda>i. (skinId i, source i))
                       (items (u\<lparr>items := items u @ [?new], updatedAt := now\<rparr>)))"
        by simp
      from pairs_unique_Map_set [OF assms this, of uid] Some False show ?thesis
        by (simp add: part0_post_wishlist_def Let_def)
    qed
  qed
qed

lemma part0_delete_wishlist_pairs_unique:
  assumes "pairs_unique d"
  shows "pairs_unique (fst (part0_delete_wishlist uid sid q now d))"
proof (cases "Map_get (wishlist d) uid")
  case None
  with assms show ?thesis by (simp add: part0_delete_wishlist_def)
next
  case (Some u)
  let ?f = "filter (\<lambda>i. \<not> (skinId i = Some sid \<and> source i = default_source q)) (items u)"
  from pairs_unique_known [OF assms Some]
  have df: "distinct (map (\<lambda>i. (skinId i, source i)) ?f)"
    by (rule distinct_map_filter)
  have a: "pairs_unique \<lparr>wishlist = Map_set uid (u\<lparr>items := ?f\<rparr>) (wishlist d),
                          skinSubscriptions = sb\<rparr>" for sb
    using df by (intro pairs_unique_Map_set [OF assms]) simp
  have b: "pairs_unique \<lparr>wishlist = Map_set uid (u\<lparr>items := ?f, updatedAt := now\<rparr>) (wishlist d),
                          skinSubscriptions = sb\<rparr>" for sb
    using df by (intro pairs_unique_Map_set [OF assms]) simp
  show ?thesis
    using Some a b by (simp add: part0_delete_wishlist_def Let_def)
qed

lemma pairs_unique_empty: "pairs_unique empty_db"
  by (simp add: pairs_unique_def empty_db_def)

lemma settled_in_order:
  assumes inv: "store_inv d" and uq: "pairs_unique d"
  shows "settled d uid k src"
proof -
  from inv have ok: "sets_ok (skinSubscriptions d)" by (simp add: store_inv_def)
  have 1: "held d uid k src \<le> 1"
  proof (cases "Map_get (wishlist d) uid")
    case None
    then show ?thesis by (simp add: held_def)
  next
    case (Some u)
    have "(\<lambda>i. skinId i = k \<and> source i = src) = (\<lambda>i. (skinId i, source i) = (k, src))"
      by auto
    with distinct_map_filter_le_1 [OF pairs_unique_known [OF uq Some], of "(k, src)"] Some
    show ?thesis by (simp add: held_def)
  qed
  have 2: "distinct (bucket (skinSubscriptions d) k)" using ok by (rule sets_ok_bucket)
  have 3: "key_of d uid src \<in> set (bucket (skinSubscriptions d) k)" if "held d uid k src = 1"
  proof (cases "Map_get (wishlist d) uid")
    case None
    with that show ?thesis by (simp add: held_def)
  next
    case (Some u)
    with that have "filter (\<lambda>i. skinId i = k \<and> source i = src) (items u) \<noteq> []"
      by (auto simp: held_def)
    then obtain i where "i \<in> set (items u)" "skinId i = k" "source i = src"
      by (auto simp: filter_empty_conv)
    then have "subKey uid (region u) src \<in> user_keys uid u k"
      by (auto simp: user_keys_def)
    with store_inv_known(1) [OF inv Some, of k] Some show ?thesis
      by (simp add: key_of_def region_of_def)
  qed
  from 1 2 3 show ?thesis by (simp add: settled_def)
qed

text \<open>
  The second file. Its stores are well formed with unique pairs: the empty store is, and
  every operation keeps it so. In such a store a second request to add the same pair changes
  nothing and returns the topic of the held item, and one matching item and one matching key
  remain.
\<close>

lemma part0_keeps_pairs_unique:
  assumes "pairs_unique d"
  shows "pairs_unique (fst (part0_register uuid now r d))"
    and "pairs_unique (fst (part0_put_region uid r now d))"
    and "pairs_unique (fst (part0_post_wishlist uid k n s now d))"
    and "pairs_unique (fst (part0_delete_wishlist uid sid q now d))"
  using assms
  by (simp_all add: part0_register_pairs_unique part0_put_region_pairs_unique
      part0_post_wishlist_pairs_unique part0_delete_wishlist_pairs_unique)

lemma part0_add_twice_in_order:
  assumes inv: "store_inv d" and uq: "pairs_unique d"
    and first: "part0_post_wishlist uid k n1 s t1 d = (d1, r1)"
  shows "\<exists>t u1 reply. part0_post_wishlist uid k n2 s t2 d1 = (d1, Inr (AlreadyInWishlist t))
       \<and> r1 = Inr reply \<and> reply_topic reply = t
       \<and> held d1 uid k (normalizeSource s) = 1
       \<and> count_list (bucket (skinSubscriptions d1) k) (key_of d1 uid (normalizeSource s)) = 1
       \<and> Map_get (wishlist d1) uid = Some u1
       \<and> t = generateTopicName (Some (region u1)) (Some (normalizeSource s)) k"
proof -
  from settled_in_order [OF inv uq, of uid k "normalizeSource s"]
  have "held d uid k (normalizeSource s) \<le> 1"
    and "distinct (bucket (skinSubscriptions d) k)"
    and "held d uid k (normalizeSource s) = 1
           \<Longrightarrow> key_of d uid (normalizeSource s) \<in> set (bucket (skinSubscriptions d) k)"
    by (simp_all add: settled_def)
  then show ?thesis using first by (rule part0_post_wishlist_twice)
qed


lemma part0_same_requests:
  "part0_delete_wishlist ''a'' ''k'' (Some ''EU:store'') ''t3''
     (fst (part0_post_wishlist ''a'' (Some ''z'') None None ''t2''
        (fst (part0_post_wishlist ''a:EU'' (Some ''k'') None None ''t1'' empty_db))))
     = (fst (part0_post_wishlist ''a'' (Some ''z'') None None ''t2''
          (fst (part0_post_wishlist ''a:EU'' (Some ''k'') None None ''t1'' empty_db))),
        Inr ItemNotFound)
   \<and> bucket (skinSubscriptions
        (fst (part0_post_wishlist ''a'' (Some ''z'') None None ''t2''
           (fst (part0_post_wishlist ''a:EU'' (Some ''k'') None None ''t1'' empty_db)))))
        (Some ''k'') = [''a:EU:EU:store'']"
  by code_simp

text \<open>
  C3. A second request to add the same pair is to leave exactly one matching item and
  exactly one matching key in the index. The second file does so in every store it reaches
  (the lemmas above). server.js does not: the three requests that lead to \<open>clash3\<close> leave
  user \<open>a:EU\<close> holding skin \<open>k\<close> from its first request, with its key deleted by the
  removal of user \<open>a\<close>. When \<open>a:EU\<close> now adds \<open>k\<close> again, once or twice, the handler
  finds the item, changes nothing and returns the topic: one matching item remains, and no
  matching key.
\<close>

theorem server_add_again_unfiled:
  "clash3 = fst (server_delete_wishlist ''a'' ''k'' (Some ''EU:store'')
             (fst (server_post_wishlist ''a'' (Some ''z'') None None ''t2''
                (fst (server_post_wishlist ''a:EU'' (Some ''k'') None None ''t1'' empty_db)))))
   \<and> server_post_wishlist ''a:EU'' (Some ''k'') None None ''t4'' clash3
       = (clash3, Inr ''valohub/EU/store/k'')
   \<and> server_post_wishlist ''a:EU'' (Some ''k'') None None ''t5''
        (fst (server_post_wishlist ''a:EU'' (Some ''k'') None None ''t4'' clash3))
       = (clash3, Inr ''valohub/EU/store/k'')
   \<and> held clash3 ''a:EU'' (Some ''k'') ''store'' = 1
   \<and> key_of clash3 ''a:EU'' ''store'' = ''a:EU:EU:store''
   \<and> count_list (bucket (skinSubscriptions clash3) (Some ''k'')) ''a:EU:EU:store'' = 0"
  by code_simp

end
